theory Spec2Isabelle
  imports Complex_Main "HOL-Library.Word" "HOL-Library.While_Combinator"
begin

section \<open>The motion extractor of MotionExtractor.cpp\<close>

text \<open>
  Conventions of the embedding.
  \<^item> \<open>uint8_t\<close>, \<open>unsigned short\<close> and \<open>unsigned int\<close> are the words of 8, 16 and 32 bits;
    \<open>size_t\<close> sizes and indices are \<open>nat\<close>, \<open>int\<close> parameters are \<open>int\<close> (none of them
    is computed with beyond comparisons and small sums).
  \<^item> A \<open>double\<close> is a real number. The two rounded operations of the program (the product in
    \<open>setSettleTime\<close>, the quotient in \<open>getSettleTime\<close>) apply a rounding function \<open>rnd\<close>,
    a parameter of these functions: the exact result is \<open>rnd = (\<lambda>x. x)\<close>. Infinities and
    NaN are not represented.
  \<^item> A pixel buffer is the list of its bytes; a pointer into it is an offset. A read through
    a pointer the program computed from a neighbour offset, or from the caller's frame, is
    checked: outside the buffer the call ends in \<open>Faults OutOfBounds\<close> (undefined behaviour
    in C++).
  \<^item> A call either returns the new object state, throws (the object state at that moment is
    kept with the exception), or faults.
\<close>

type_synonym uint8 = "8 word"
type_synonym ushort = "16 word"
type_synonym uint32 = "32 word"

definition kDownscaleRatio :: nat where
  "kDownscaleRatio = 2"

definition kDownscaleSquare :: nat where
  "kDownscaleSquare = kDownscaleRatio * kDownscaleRatio"

definition kBytesPerPixel :: nat where
  "kBytesPerPixel = 3"

datatype exn = ArgumentOutOfRangeException | FileException | JsonLogicError

datatype fault = OutOfBounds | BadConversion | NonTermination

datatype 'a outcome = Returns 'a | Throws exn 'a | Faults fault

subsection \<open>VideoFrame and PixelOffset\<close>

text \<open>
  Modelled from the spec: the class \<open>VideoFrame\<close> (VideoFrame.hpp is not among the sources).
  A frame has a width, a height, a channel count and a row-major interleaved pixel buffer;
  \<open>getTotalSize\<close> is the size of that buffer in bytes. The fourth constructor argument
  is not interpreted: a new frame holds the bytes \<open>mem\<close> that the allocation happened to
  contain.
\<close>

record VideoFrame =
  getWidth :: nat
  getHeight :: nat
  getBytesPerPixel :: nat
  getPixels :: "uint8 list"

definition getTotalSize :: "VideoFrame \<Rightarrow> nat" where
  "getTotalSize f = getWidth f * getHeight f * getBytesPerPixel f"

definition new_VideoFrame :: "nat \<Rightarrow> nat \<Rightarrow> nat \<Rightarrow> (nat \<Rightarrow> uint8) \<Rightarrow> VideoFrame" where
  "new_VideoFrame w h bpp mem =
     \<lparr>getWidth = w, getHeight = h, getBytesPerPixel = bpp, getPixels = map mem [0..<w * h * bpp]\<rparr>"

datatype PixelOffset = PixelOffset (off_x: int) (off_y: int) (off_p: int)

subsection \<open>The object state\<close>

record MotionExtractor =
  motionMask :: VideoFrame
  fps :: real
  motionThreshold :: int
  stableCap :: uint32
  erosionLevel :: int
  erodedMask :: VideoFrame
  offs :: "PixelOffset list"
  currentImage :: VideoFrame
  currentStableTimes :: "uint32 list"
  downscaleBuff :: VideoFrame
  downscaleAccumulators :: "ushort list"
  refImage :: VideoFrame
  stableRecords :: "uint32 list"
  firstFrame :: bool
  imageWidth :: nat
  imageHeight :: nat
  imageArea :: nat
  imageSize :: nat
  srcLineSize :: nat
  destLineSize :: nat
  benchmarking :: bool
  lastMark :: int
  detectorFPS :: int
  framesCounted :: int

subsection \<open>reset\<close>

text \<open>
  \<open>fill\<close> zeroes the timer vector over its own length; \<open>memset\<close> zeroes the
  \<open>imageArea\<close> records of the block that the constructor allocated with that many elements.
\<close>

definition reset :: "MotionExtractor \<Rightarrow> MotionExtractor" where
  "reset s = s\<lparr>currentStableTimes := replicate (length (currentStableTimes s)) 0,
               stableRecords := replicate (imageArea s) 0,
               firstFrame := True\<rparr>"

subsection \<open>The constructor\<close>

text \<open>
  The conversion \<open>(unsigned int) d\<close> of a double truncates towards zero and is undefined
  when the truncated value is not an \<open>unsigned int\<close>.
\<close>

definition double_to_uint :: "real \<Rightarrow> uint32 option" where
  "double_to_uint d =
     (let t = (if 0 \<le> d then \<lfloor>d\<rfloor> else \<lceil>d\<rceil>)
      in if 0 \<le> t \<and> t < 2 ^ 32 then Some (word_of_int t) else None)"

text \<open>
  \<open>mem k\<close> is the content of the \<open>k\<close>-th buffer allocated without initialisation, and
  \<open>now\<close> the reading of \<open>clock()\<close>. \<open>constructed\<close> is the object at the end of the
  constructor once the member initialiser \<open>stableCap((unsigned int)ceil(videoFPS))\<close> has
  produced \<open>cap\<close>: the members as the body assigns them, then \<open>reset()\<close>, which zeroes
  the record block that \<open>new unsigned int[imageArea]\<close> left uninitialised.
\<close>

definition constructed ::
  "(nat \<Rightarrow> nat \<Rightarrow> uint8) \<Rightarrow> int \<Rightarrow> nat \<Rightarrow> nat \<Rightarrow> real \<Rightarrow> bool \<Rightarrow> uint32 \<Rightarrow> MotionExtractor" where
  "constructed mem now frameWidth frameHeight videoFPS benchmark cap =
     (let iw = frameWidth div kDownscaleRatio;
          ih = frameHeight div kDownscaleRatio;
          area = iw * ih;
          mask = new_VideoFrame iw ih kBytesPerPixel (mem 3);
          po = int (getBytesPerPixel mask);
          upOne = - int (getBytesPerPixel mask * getWidth mask)
      in reset
        \<lparr>motionMask = mask,
         fps = videoFPS,
         motionThreshold = 26,
         stableCap = cap,
         erosionLevel = 5,
         erodedMask = new_VideoFrame iw ih kBytesPerPixel (mem 4),
         offs = [PixelOffset (- 1) 0 (- po),
                 PixelOffset 1 0 po,
                 PixelOffset (- 1) (- 1) (upOne - po),
                 PixelOffset 0 (- 1) upOne,
                 PixelOffset 1 (- 1) (upOne + po),
                 PixelOffset (- 1) 1 (upOne - po),
                 PixelOffset 0 1 upOne,
                 PixelOffset 1 1 (upOne + po)],
         currentImage = new_VideoFrame iw ih kBytesPerPixel (mem 0),
         currentStableTimes = replicate area 0,
         downscaleBuff = new_VideoFrame iw ih kBytesPerPixel (mem 1),
         downscaleAccumulators = replicate (area * kBytesPerPixel) 0,
         refImage = new_VideoFrame iw ih kBytesPerPixel (mem 2),
         stableRecords = replicate area 0,
         firstFrame = True,
         imageWidth = iw,
         imageHeight = ih,
         imageArea = area,
         imageSize = area * kBytesPerPixel,
         srcLineSize = frameWidth * kBytesPerPixel,
         destLineSize = iw * kBytesPerPixel,
         benchmarking = benchmark,
         lastMark = now,
         detectorFPS = 0,
         framesCounted = 0\<rparr>)"

definition new_MotionExtractor ::
  "(nat \<Rightarrow> nat \<Rightarrow> uint8) \<Rightarrow> int \<Rightarrow> nat \<Rightarrow> nat \<Rightarrow> real \<Rightarrow> bool \<Rightarrow> MotionExtractor outcome" where
  "new_MotionExtractor mem now frameWidth frameHeight videoFPS benchmark =
     (case double_to_uint (of_int \<lceil>videoFPS\<rceil>) of
        None \<Rightarrow> Faults BadConversion
      | Some cap \<Rightarrow> Returns (constructed mem now frameWidth frameHeight videoFPS benchmark cap))"

subsection \<open>pixelIsDifferent\<close>

text \<open>
  \<open>pa\<close> and \<open>pb\<close> are the bytes from the two pointers on. The loop runs \<open>b\<close> from 0 to
  \<open>kBytesPerPixel\<close> and leaves at the first channel over the threshold; \<open>n\<close> counts the
  channels still to visit.
\<close>

fun pixelIsDifferent_from :: "int \<Rightarrow> uint8 list \<Rightarrow> uint8 list \<Rightarrow> nat \<Rightarrow> nat \<Rightarrow> bool" where
  "pixelIsDifferent_from thr pa pb b 0 = False"
| "pixelIsDifferent_from thr pa pb b (Suc n) =
     (if \<bar>uint (pa ! b) - uint (pb ! b)\<bar> > thr then True
      else pixelIsDifferent_from thr pa pb (Suc b) n)"

definition pixelIsDifferent :: "int \<Rightarrow> uint8 list \<Rightarrow> uint8 list \<Rightarrow> bool" where
  "pixelIsDifferent thr pa pb = pixelIsDifferent_from thr pa pb 0 kBytesPerPixel"

subsection \<open>Parameters: setters and getters\<close>

definition setSensitivity :: "int \<Rightarrow> MotionExtractor \<Rightarrow> MotionExtractor outcome" where
  "setSensitivity newSens s =
     (if newSens < 1 \<or> newSens > 127 then Throws ArgumentOutOfRangeException s
      else Returns (reset (s\<lparr>motionThreshold := newSens\<rparr>)))"

definition setSettleTime :: "(real \<Rightarrow> real) \<Rightarrow> real \<Rightarrow> MotionExtractor \<Rightarrow> MotionExtractor outcome" where
  "setSettleTime rnd newTime s =
     (if newTime < 1 \<or> newTime > 60 then Throws ArgumentOutOfRangeException s
      else (case double_to_uint (of_int \<lceil>rnd (newTime * fps s)\<rceil>) of
              None \<Rightarrow> Faults BadConversion
            | Some cap \<Rightarrow> Returns (reset (s\<lparr>stableCap := cap\<rparr>))))"

definition setErosion :: "int \<Rightarrow> MotionExtractor \<Rightarrow> MotionExtractor outcome" where
  "setErosion newErosion s =
     (if newErosion < 0 \<or> newErosion > 8 then Throws ArgumentOutOfRangeException s
      else Returns (reset (s\<lparr>erosionLevel := newErosion\<rparr>)))"

definition getSensitivity :: "MotionExtractor \<Rightarrow> int" where
  "getSensitivity s = motionThreshold s"

definition getSettleTime :: "(real \<Rightarrow> real) \<Rightarrow> MotionExtractor \<Rightarrow> real" where
  "getSettleTime rnd s = rnd (real (unat (stableCap s)) / fps s)"

definition getErosion :: "MotionExtractor \<Rightarrow> int" where
  "getErosion s = erosionLevel s"

subsection \<open>save and load\<close>

text \<open>
  \<open>Json::Value\<close> belongs to the JSON library, outside the repository. Represented are the
  kinds of value this program stores or tests: null, an integer, a real. An object maps
  every key to a value, null for a member it does not have (the library's \<open>operator[]\<close>).
  \<open>asInt\<close> truncates a real towards zero and throws the library's logic error when the
  number is not an \<open>int\<close>; \<open>asDouble\<close> converts an integer.
\<close>

datatype jvalue = JNull | JInt int | JReal real

type_synonym jobject = "string \<Rightarrow> jvalue"

definition isNull :: "jvalue \<Rightarrow> bool" where
  "isNull v = (case v of JNull \<Rightarrow> True | JInt i \<Rightarrow> False | JReal r \<Rightarrow> False)"

definition in_int_range :: "int \<Rightarrow> bool" where
  "in_int_range i = (- (2 ^ 31) \<le> i \<and> i < 2 ^ 31)"

definition asInt :: "jvalue \<Rightarrow> int option" where
  "asInt v =
     (case v of
        JNull \<Rightarrow> Some 0
      | JInt i \<Rightarrow> if in_int_range i then Some i else None
      | JReal r \<Rightarrow>
          (let t = (if 0 \<le> r then \<lfloor>r\<rfloor> else \<lceil>r\<rceil>)
           in if - (2 ^ 31) \<le> r \<and> r \<le> 2 ^ 31 - 1 then Some t else None))"

definition asDouble :: "jvalue \<Rightarrow> real" where
  "asDouble v = (case v of JNull \<Rightarrow> 0 | JInt i \<Rightarrow> of_int i | JReal r \<Rightarrow> r)"

definition save :: "(real \<Rightarrow> real) \<Rightarrow> MotionExtractor \<Rightarrow> jobject \<Rightarrow> jobject" where
  "save rnd s paramsObject =
     paramsObject(''sensitivity'' := JInt (getSensitivity s),
                  ''settle time'' := JReal (getSettleTime rnd s),
                  ''erosion level'' := JInt (getErosion s))"

definition load :: "(real \<Rightarrow> real) \<Rightarrow> jobject \<Rightarrow> MotionExtractor \<Rightarrow> MotionExtractor outcome" where
  "load rnd paramsObject s =
     (let sv = paramsObject ''sensitivity'';
          tv = paramsObject ''settle time'';
          ev = paramsObject ''erosion level''
      in if isNull sv \<or> isNull tv \<or> isNull ev then Throws FileException s
         else (case asInt sv of
                 None \<Rightarrow> Throws JsonLogicError s
               | Some si \<Rightarrow>
                   (let td = asDouble tv
                    in (case asInt ev of
                          None \<Rightarrow> Throws JsonLogicError s
                        | Some ei \<Rightarrow>
                            if si < 1 \<or> si > 127 \<or> td < 1 \<or> td > 60 \<or> ei < 0 \<or> ei > 8
                            then Throws FileException s
                            else (case setSensitivity si s of
                                    Returns s1 \<Rightarrow>
                                      (case setSettleTime rnd td s1 of
                                         Returns s2 \<Rightarrow> setErosion ei s2
                                       | Throws e s2 \<Rightarrow> Throws e s2
                                       | Faults f \<Rightarrow> Faults f)
                                  | Throws e s1 \<Rightarrow> Throws e s1
                                  | Faults f \<Rightarrow> Faults f)))))"

subsection \<open>Loops and memory\<close>

text \<open>
  A \<open>for\<close> loop whose body can fault: the body runs on each index in turn and the first
  fault ends the loop. \<open>stride_count len stride\<close> is the number of iterations of
  \<open>for (p = start; p < start + len; p += stride)\<close>; every such loop of the program has
  a non-zero stride.
\<close>

fun for_each :: "('i \<Rightarrow> 's \<Rightarrow> fault + 's) \<Rightarrow> 'i list \<Rightarrow> 's \<Rightarrow> fault + 's" where
  "for_each body [] st = Inr st"
| "for_each body (i # is) st =
     (case body i st of Inl e \<Rightarrow> Inl e | Inr st' \<Rightarrow> for_each body is st')"

definition stride_count :: "nat \<Rightarrow> nat \<Rightarrow> nat" where
  "stride_count len stride = (len + stride - 1) div stride"

definition rd :: "uint8 list \<Rightarrow> int \<Rightarrow> fault + uint8" where
  "rd buf j = (if 0 \<le> j \<and> j < int (length buf) then Inr (buf ! nat j) else Inl OutOfBounds)"

text \<open>\<open>memcpy dst d src ofs n\<close> copies \<open>n\<close> bytes from offset \<open>ofs\<close> of \<open>src\<close> to offset \<open>d\<close> of \<open>dst\<close>.\<close>

definition memcpy :: "uint8 list \<Rightarrow> nat \<Rightarrow> uint8 list \<Rightarrow> nat \<Rightarrow> nat \<Rightarrow> uint8 list" where
  "memcpy dst d src ofs n = fold (\<lambda>k buf. buf[d + k := src ! (ofs + k)]) [0..<n] dst"

subsection \<open>downscale\<close>

text \<open>
  The variables of the accumulation loop. Pointers are offsets: \<open>accum\<close> and \<open>accumRow\<close>
  into the accumulator vector \<open>accs\<close>, \<open>srcPixel\<close> into the pixels of the source frame.
\<close>

record downscale_vars =
  accum :: nat
  accumRow :: nat
  srcPixel :: nat
  accumRowsDone :: nat
  rowPixelsDone :: nat
  srcRowsPerAccumRow :: nat
  accs :: "ushort list"

text \<open>\<open>accum[c] += srcPixel[c]\<close>, the sum taken in \<open>unsigned short\<close>.\<close>

definition add_channel :: "uint8 list \<Rightarrow> nat \<Rightarrow> nat \<Rightarrow> nat \<Rightarrow> ushort list \<Rightarrow> fault + ushort list" where
  "add_channel src sp a c acc =
     (if sp + c < length src \<and> a + c < length acc
      then Inr (acc[a + c := acc ! (a + c) + ucast (src ! (sp + c))])
      else Inl OutOfBounds)"

text \<open>One round of the loop over \<open>p\<close>: the three channels, then \<open>srcPixel += kBytesPerPixel\<close>.\<close>

definition accumulate_pixel :: "uint8 list \<Rightarrow> nat \<Rightarrow> nat \<Rightarrow> nat \<times> ushort list \<Rightarrow> fault + nat \<times> ushort list" where
  "accumulate_pixel src a p st =
     (case for_each (add_channel src (fst st) a) [0..<kBytesPerPixel] (snd st) of
        Inl e \<Rightarrow> Inl e
      | Inr acc \<Rightarrow> Inr (fst st + kBytesPerPixel, acc))"

text \<open>The body of \<open>while (accum < accumEnd)\<close>.\<close>

definition downscale_step :: "MotionExtractor \<Rightarrow> uint8 list \<Rightarrow> downscale_vars \<Rightarrow> fault + downscale_vars" where
  "downscale_step s src v =
     (case for_each (accumulate_pixel src (accum v)) [0..<kDownscaleRatio] (srcPixel v, accs v) of
        Inl e \<Rightarrow> Inl e
      | Inr (sp, acc) \<Rightarrow>
          (let v1 = v\<lparr>srcPixel := sp, accs := acc, accum := accum v + kBytesPerPixel,
                      rowPixelsDone := rowPixelsDone v + 1\<rparr>
           in if rowPixelsDone v1 = imageWidth s
              then (let v2 = v1\<lparr>rowPixelsDone := 0,
                                 srcRowsPerAccumRow := srcRowsPerAccumRow v1 + 1\<rparr>;
                        v3 = (if srcRowsPerAccumRow v2 = kDownscaleRatio
                              then v2\<lparr>accumRowsDone := accumRowsDone v2 + 1,
                                      accumRow := (accumRowsDone v2 + 1) * destLineSize s,
                                      srcRowsPerAccumRow := 0\<rparr>
                              else v2)
                    in Inr (v3\<lparr>accum := accumRow v3,
                               srcPixel := (accumRowsDone v3 * kDownscaleRatio + srcRowsPerAccumRow v3)
                                             * srcLineSize s\<rparr>))
              else Inr v1))"

definition downscale_cond :: "fault + downscale_vars \<Rightarrow> bool" where
  "downscale_cond r = (case r of Inl e \<Rightarrow> False | Inr v \<Rightarrow> accum v < length (accs v))"

definition downscale_body :: "MotionExtractor \<Rightarrow> uint8 list \<Rightarrow> fault + downscale_vars \<Rightarrow> fault + downscale_vars" where
  "downscale_body s src r = (case r of Inl e \<Rightarrow> Inl e | Inr v \<Rightarrow> downscale_step s src v)"

text \<open>
  \<open>downscale frame down\<close>: the accumulators are cleared, the loop runs (a loop that never
  leaves is the fault \<open>NonTermination\<close>), then every accumulator divided by
  \<open>kDownscaleSquare\<close> is written to the pixels of \<open>down\<close>. The result is the new \<open>down\<close> and
  the object with its new accumulators.
\<close>

definition downscale :: "VideoFrame \<Rightarrow> VideoFrame \<Rightarrow> MotionExtractor \<Rightarrow> (VideoFrame \<times> MotionExtractor) outcome" where
  "downscale frame down s =
     (let init = \<lparr>accum = 0, accumRow = 0, srcPixel = 0, accumRowsDone = 0, rowPixelsDone = 0,
                  srcRowsPerAccumRow = 0,
                  accs = replicate (length (downscaleAccumulators s)) 0\<rparr>
      in case while_option downscale_cond (downscale_body s (getPixels frame)) (Inr init) of
           None \<Rightarrow> Faults NonTermination
         | Some (Inl e) \<Rightarrow> Faults e
         | Some (Inr v) \<Rightarrow>
             if length (accs v) \<le> length (getPixels down)
             then Returns
               (down\<lparr>getPixels := map (\<lambda>a. word_of_nat (unat a div kDownscaleSquare)) (accs v)
                                     @ drop (length (accs v)) (getPixels down)\<rparr>,
                s\<lparr>downscaleAccumulators := accs v\<rparr>)
             else Faults OutOfBounds)"

subsection \<open>generateMotionMask\<close>

text \<open>
  The benchmarking block reads \<open>clock()\<close> twice; the two readings and \<open>CLOCKS_PER_SEC\<close>
  are given with the call.
\<close>

record timing =
  clock_first :: int
  clock_second :: int
  CLOCKS_PER_SEC :: int

definition benchmark_tick :: "timing \<Rightarrow> MotionExtractor \<Rightarrow> MotionExtractor" where
  "benchmark_tick tm s =
     (if benchmarking s
      then (let s1 = (if clock_first tm > lastMark s + CLOCKS_PER_SEC tm
                      then s\<lparr>detectorFPS := framesCounted s, framesCounted := 0,
                             lastMark := clock_second tm\<rparr>
                      else s)
            in s1\<lparr>framesCounted := framesCounted s1 + 1\<rparr>)
      else s)"

text \<open>
  Modelled from the spec: \<open>Math::sign\<close> (MKMath.hpp is not among the sources), the sign
  of the difference, which nudges a channel by one towards the sample.
\<close>

definition Math_sign :: "int \<Rightarrow> int" where
  "Math_sign d = (if 0 < d then 1 else if d < 0 then - 1 else 0)"

text \<open>The first frame: the loop that wipes channel 0 of the mask.\<close>

definition wipe_motion_channel :: "VideoFrame \<Rightarrow> VideoFrame" where
  "wipe_motion_channel m =
     m\<lparr>getPixels := fold (\<lambda>i px. px[i * getBytesPerPixel m := 0])
          [0..<stride_count (getTotalSize m) (getBytesPerPixel m)] (getPixels m)\<rparr>"

text \<open>
  The first pass, at pixel \<open>i\<close>: \<open>tip\<close> is the downscaled frame, \<open>cip\<close> the current image,
  \<open>timers\<close> the vector of stable times.
\<close>

definition nudge :: "uint8 list \<Rightarrow> uint8 list \<Rightarrow> nat \<Rightarrow> uint8 list" where
  "nudge cip tip ofs =
     fold (\<lambda>b c. c[ofs + b := c ! (ofs + b) + word_of_int (Math_sign (uint (tip ! (ofs + b)) - uint (c ! (ofs + b))))])
       [0..<kBytesPerPixel] cip"

definition track_pixel :: "int \<Rightarrow> uint8 list \<Rightarrow> nat \<Rightarrow> uint8 list \<times> uint32 list \<Rightarrow> uint8 list \<times> uint32 list" where
  "track_pixel thr tip i st =
     (let ofs = i * kBytesPerPixel; cip = fst st; timers = snd st
      in if pixelIsDifferent thr (drop ofs tip) (drop ofs cip)
         then (memcpy cip ofs tip ofs kBytesPerPixel, timers[i := 0])
         else (nudge cip tip ofs, timers[i := timers ! i + 1]))"

text \<open>
  The second pass, at pixel \<open>i\<close>: \<open>rip\<close> is the reference image, \<open>bmp\<close> the motion mask.
\<close>

definition promote_pixel ::
  "int \<Rightarrow> uint32 \<Rightarrow> uint8 list \<Rightarrow> uint32 list \<Rightarrow> nat
     \<Rightarrow> uint8 list \<times> uint32 list \<times> uint8 list \<Rightarrow> uint8 list \<times> uint32 list \<times> uint8 list" where
  "promote_pixel thr cap cip timers i st =
     (let ofs = i * kBytesPerPixel; rip = fst st; records = fst (snd st); bmp = snd (snd st);
          promoted = timers ! i > records ! i;
          rip' = (if promoted then memcpy rip ofs cip ofs kBytesPerPixel else rip);
          records' = (if promoted then records[i := min (timers ! i) cap] else records)
      in (rip', records', bmp[ofs := (if pixelIsDifferent thr (drop ofs rip') (drop ofs cip) then 255 else 0)]))"

text \<open>
  The erosion pass. \<open>count_adjacents\<close> is the loop over the offset table at the mask
  pixel at byte offset \<open>base\<close> and coordinates \<open>(x, y)\<close>; the byte \<open>(bmp + it->p)[0]\<close> is
  read only when both coordinate tests hold.
\<close>

fun count_adjacents :: "uint8 list \<Rightarrow> int \<Rightarrow> int \<Rightarrow> int \<Rightarrow> PixelOffset list \<Rightarrow> int \<Rightarrow> fault + int" where
  "count_adjacents bmp base x y [] adjacents = Inr adjacents"
| "count_adjacents bmp base x y (it # its) adjacents =
     (if x + off_x it > 0 \<and> y + off_y it > 0
      then (case rd bmp (base + off_p it) of
              Inl e \<Rightarrow> Inl e
            | Inr v \<Rightarrow> count_adjacents bmp base x y its (if v > 0 then adjacents + 1 else adjacents))
      else count_adjacents bmp base x y its adjacents)"

definition next_xy :: "nat \<Rightarrow> int \<Rightarrow> int \<Rightarrow> int \<times> int" where
  "next_xy w x y = (if x + 1 = int w then (0, y + 1) else (x + 1, y))"

definition erode_pixel ::
  "int \<Rightarrow> PixelOffset list \<Rightarrow> nat \<Rightarrow> uint8 list \<Rightarrow> nat
     \<Rightarrow> int \<times> int \<times> uint8 list \<Rightarrow> fault + int \<times> int \<times> uint8 list" where
  "erode_pixel lvl tab w bmp i st =
     (let ofs = i * kBytesPerPixel; x = fst st; y = fst (snd st); eroded = snd (snd st)
      in case (if bmp ! ofs > 0
               then (case count_adjacents bmp (int ofs) x y tab 0 of
                       Inl e \<Rightarrow> Inl e
                     | Inr adjacents \<Rightarrow> Inr (if adjacents \<ge> lvl then bmp ! ofs else 0))
               else Inr 0) of
           Inl e \<Rightarrow> Inl e
         | Inr v \<Rightarrow>
             Inr (fst (next_xy w x y), snd (next_xy w x y),
                  eroded[ofs := v, ofs + 1 := bmp ! (ofs + 1), ofs + 2 := bmp ! (ofs + 2)]))"

text \<open>The dilation pass: the loop over the offset table leaves at the first active neighbour.\<close>

fun any_active :: "uint8 list \<Rightarrow> int \<Rightarrow> int \<Rightarrow> int \<Rightarrow> PixelOffset list \<Rightarrow> fault + bool" where
  "any_active bmp base x y [] = Inr False"
| "any_active bmp base x y (it # its) =
     (if x + off_x it > 0 \<and> y + off_y it > 0
      then (case rd bmp (base + off_p it) of
              Inl e \<Rightarrow> Inl e
            | Inr v \<Rightarrow> if v > 0 then Inr True else any_active bmp base x y its)
      else any_active bmp base x y its)"

definition dilate_pixel ::
  "PixelOffset list \<Rightarrow> nat \<Rightarrow> uint8 list \<Rightarrow> nat
     \<Rightarrow> int \<times> int \<times> uint8 list \<Rightarrow> fault + int \<times> int \<times> uint8 list" where
  "dilate_pixel tab w bmp i st =
     (let ofs = i * kBytesPerPixel; x = fst st; y = fst (snd st); eroded = snd (snd st)
      in case (if bmp ! ofs > 0 then Inr (bmp ! ofs)
               else (case any_active bmp (int ofs) x y tab of
                       Inl e \<Rightarrow> Inl e
                     | Inr activeNeighbors \<Rightarrow> Inr (if activeNeighbors then 255 else 0))) of
           Inl e \<Rightarrow> Inl e
         | Inr v \<Rightarrow>
             Inr (fst (next_xy w x y), snd (next_xy w x y),
                  eroded[ofs := v, ofs + 1 := bmp ! (ofs + 1), ofs + 2 := bmp ! (ofs + 2)]))"

text \<open>
  One filter pass over the mask (\<open>pixel\<close> is \<open>erode_pixel\<close> or \<open>dilate_pixel\<close>), followed
  by \<open>*motionMask = *erodedMask\<close>, taken to copy the frame by value.
\<close>

definition filter_pass ::
  "(nat \<Rightarrow> uint8 list \<Rightarrow> nat \<Rightarrow> int \<times> int \<times> uint8 list \<Rightarrow> fault + int \<times> int \<times> uint8 list)
     \<Rightarrow> MotionExtractor \<Rightarrow> fault + MotionExtractor" where
  "filter_pass pixel s =
     (case for_each (pixel (getWidth (motionMask s)) (getPixels (motionMask s)))
             [0..<stride_count (getTotalSize (motionMask s)) kBytesPerPixel]
             (0, 0, getPixels (erodedMask s)) of
        Inl e \<Rightarrow> Inl e
      | Inr st \<Rightarrow>
          (let em = (erodedMask s)\<lparr>getPixels := snd (snd st)\<rparr>
           in Inr (s\<lparr>erodedMask := em, motionMask := em\<rparr>)))"

text \<open>
  The blocks of \<open>generateMotionMask\<close> after the downscale: the copy made on the first
  frame, the two passes over the pixels that update the model and the raw mask, and the
  filter (erosion, then dilation).
\<close>

definition first_frame_copy :: "MotionExtractor \<Rightarrow> MotionExtractor" where
  "first_frame_copy s =
     s\<lparr>currentImage := (currentImage s)
          \<lparr>getPixels := memcpy (getPixels (currentImage s)) 0
               (getPixels (downscaleBuff s)) 0 (imageSize s)\<rparr>,
       refImage := (refImage s)
          \<lparr>getPixels := memcpy (getPixels (refImage s)) 0
               (getPixels (downscaleBuff s)) 0 (imageSize s)\<rparr>,
       firstFrame := False,
       motionMask := wipe_motion_channel (motionMask s)\<rparr>"

definition update_model :: "MotionExtractor \<Rightarrow> MotionExtractor" where
  "update_model s =
     (let n = stride_count (imageSize s) kBytesPerPixel;
          tracked = fold (track_pixel (motionThreshold s) (getPixels (downscaleBuff s)))
                      [0..<n] (getPixels (currentImage s), currentStableTimes s);
          cip = fst tracked;
          timers = snd tracked;
          promoted = fold (promote_pixel (motionThreshold s) (stableCap s) cip timers)
                       [0..<n] (getPixels (refImage s), stableRecords s,
                                getPixels (motionMask s))
      in s\<lparr>currentImage := (currentImage s)\<lparr>getPixels := cip\<rparr>,
           currentStableTimes := timers,
           refImage := (refImage s)\<lparr>getPixels := fst promoted\<rparr>,
           stableRecords := fst (snd promoted),
           motionMask := (motionMask s)\<lparr>getPixels := snd (snd promoted)\<rparr>\<rparr>)"

definition morphological_filter :: "MotionExtractor \<Rightarrow> MotionExtractor outcome" where
  "morphological_filter s =
     (case filter_pass (erode_pixel (erosionLevel s) (offs s)) s of
        Inl e \<Rightarrow> Faults e
      | Inr s3 \<Rightarrow>
          (case filter_pass (dilate_pixel (offs s3)) s3 of
             Inl e \<Rightarrow> Faults e
           | Inr s4 \<Rightarrow> Returns s4))"

text \<open>
  \<open>generateMotionMask\<close> returns a reference to the mask of the object: the result is the new
  object state, whose \<open>motionMask\<close> is the mask returned. \<open>store_downscaled r\<close> is the object
  once \<open>downscale(frame, *downscaleBuff)\<close> has written its output \<open>fst r\<close>.
\<close>

definition store_downscaled :: "VideoFrame \<times> MotionExtractor \<Rightarrow> MotionExtractor" where
  "store_downscaled r = (snd r)\<lparr>downscaleBuff := fst r\<rparr>"

definition generateMotionMask :: "timing \<Rightarrow> VideoFrame \<Rightarrow> MotionExtractor \<Rightarrow> MotionExtractor outcome" where
  "generateMotionMask tm frame s0 =
     (case downscale frame (downscaleBuff (benchmark_tick tm s0)) (benchmark_tick tm s0) of
        Faults e \<Rightarrow> Faults e
      | Throws e r \<Rightarrow> Throws e (snd r)
      | Returns r \<Rightarrow>
          (let s = store_downscaled r
           in if firstFrame s then Returns (first_frame_copy s)
              else (let s2 = update_model s
                    in if erosionLevel s2 > 0 then morphological_filter s2 else Returns s2)))"

subsection \<open>Notions used by the statements\<close>

text \<open>
  What \<open>load\<close> decodes from an object whose three members are present, and the range
  check it applies to the decoded values.
\<close>

definition load_decodes :: "jobject \<Rightarrow> int \<Rightarrow> real \<Rightarrow> int \<Rightarrow> bool" where
  "load_decodes obj si td ei \<longleftrightarrow>
     \<not> isNull (obj ''sensitivity'') \<and> \<not> isNull (obj ''settle time'') \<and>
     \<not> isNull (obj ''erosion level'') \<and>
     asInt (obj ''sensitivity'') = Some si \<and> asDouble (obj ''settle time'') = td \<and>
     asInt (obj ''erosion level'') = Some ei"

definition params_in_range :: "int \<Rightarrow> real \<Rightarrow> int \<Rightarrow> bool" where
  "params_in_range si td ei \<longleftrightarrow> 1 \<le> si \<and> si \<le> 127 \<and> 1 \<le> td \<and> td \<le> 60 \<and> 0 \<le> ei \<and> ei \<le> 8"

text \<open>
  \<open>frame_dims s f\<close>: the frame \<open>f\<close> has the downscaled geometry of the object and a pixel
  buffer of \<open>imageSize\<close> bytes. \<open>state_ok s\<close>: the sizes the constructor establishes (the
  derived dimensions, and every buffer of its allocated size). \<open>frame_fits s frame\<close>: the
  caller's frame has the source geometry the object was constructed for, the precondition
  of \<open>generateMotionMask\<close>.
\<close>

definition frame_dims :: "MotionExtractor \<Rightarrow> VideoFrame \<Rightarrow> bool" where
  "frame_dims s f \<longleftrightarrow>
     getWidth f = imageWidth s \<and> getHeight f = imageHeight s \<and>
     getBytesPerPixel f = kBytesPerPixel \<and> length (getPixels f) = imageSize s"

definition state_ok :: "MotionExtractor \<Rightarrow> bool" where
  "state_ok s \<longleftrightarrow>
     imageArea s = imageWidth s * imageHeight s \<and>
     imageSize s = imageArea s * kBytesPerPixel \<and>
     destLineSize s = imageWidth s * kBytesPerPixel \<and>
     frame_dims s (motionMask s) \<and> frame_dims s (erodedMask s) \<and>
     frame_dims s (currentImage s) \<and> frame_dims s (downscaleBuff s) \<and>
     frame_dims s (refImage s) \<and>
     length (currentStableTimes s) = imageArea s \<and>
     length (stableRecords s) = imageArea s \<and>
     length (downscaleAccumulators s) = imageSize s"

definition frame_fits :: "MotionExtractor \<Rightarrow> VideoFrame \<Rightarrow> bool" where
  "frame_fits s frame \<longleftrightarrow>
     getBytesPerPixel frame = kBytesPerPixel \<and>
     length (getPixels frame) = getTotalSize frame \<and>
     srcLineSize s = getWidth frame * kBytesPerPixel \<and>
     imageWidth s = getWidth frame div kDownscaleRatio \<and>
     imageHeight s = getHeight frame div kDownscaleRatio"

text \<open>
  The downscaled frame in the words of the specification: the source is cut into
  non-overlapping 2x2 blocks; per channel the output value is the sum of the four samples
  of the block divided by 4, rounded down; the output has \<open>width div 2\<close> columns and
  \<open>height div 2\<close> rows. \<open>sample f x y ch\<close> is channel \<open>ch\<close> of the source pixel in column
  \<open>x\<close> and row \<open>y\<close>.
\<close>

definition sample :: "VideoFrame \<Rightarrow> nat \<Rightarrow> nat \<Rightarrow> nat \<Rightarrow> nat" where
  "sample f x y ch = unat (getPixels f ! ((y * getWidth f + x) * kBytesPerPixel + ch))"

definition block_mean :: "VideoFrame \<Rightarrow> nat \<Rightarrow> nat \<Rightarrow> nat \<Rightarrow> nat" where
  "block_mean f c r ch =
     (sample f (2 * c) (2 * r) ch + sample f (2 * c + 1) (2 * r) ch
      + sample f (2 * c) (2 * r + 1) ch + sample f (2 * c + 1) (2 * r + 1) ch) div 4"

definition downscaled :: "VideoFrame \<Rightarrow> uint8 list" where
  "downscaled f =
     map (\<lambda>i. word_of_nat (block_mean f ((i div 3) mod (getWidth f div 2))
                               ((i div 3) div (getWidth f div 2)) (i mod 3)))
       [0..<(getWidth f div 2) * (getHeight f div 2) * 3]"

text \<open>A frame of 3 by 2 pixels, used as a concrete input.\<close>

definition small_frame :: VideoFrame where
  "small_frame = \<lparr>getWidth = 3, getHeight = 2, getBytesPerPixel = 3,
     getPixels = [10, 20, 30,  20, 30, 40,  255, 255, 255,
                  30, 40, 50,  41, 51, 61,  255, 255, 255]\<rparr>"

text \<open>
  The invariant of the accumulation loop of \<open>downscale\<close>, for an image of \<open>W\<close> by \<open>H\<close>
  pixels and source lines of \<open>L\<close> bytes. \<open>contributed W R k j q\<close> is the number of source
  rows already added into the accumulators of pixel \<open>q\<close> when \<open>R\<close> accumulator rows are
  complete, \<open>k\<close> source rows of the current one are complete and \<open>j\<close> pixels of the
  current source row are done; \<open>row_sum\<close> is what one source row adds to a channel of
  pixel \<open>q\<close>, \<open>partial_sum\<close> the accumulator after \<open>m\<close> rows. \<open>ds_progress\<close> counts
  the iterations done, \<open>ds_left\<close> those still to come.
\<close>

definition contributed :: "nat \<Rightarrow> nat \<Rightarrow> nat \<Rightarrow> nat \<Rightarrow> nat \<Rightarrow> nat" where
  "contributed W R k j q =
     (if q < R * W then 2 else if q < R * W + j then k + 1 else if q < R * W + W then k else 0)"

definition row_sum :: "uint8 list \<Rightarrow> nat \<Rightarrow> nat \<Rightarrow> nat \<Rightarrow> nat \<Rightarrow> nat \<Rightarrow> ushort" where
  "row_sum src L W q ch k =
     ucast (src ! ((2 * (q div W) + k) * L + 6 * (q mod W) + ch))
     + ucast (src ! ((2 * (q div W) + k) * L + 6 * (q mod W) + 3 + ch))"

definition partial_sum :: "uint8 list \<Rightarrow> nat \<Rightarrow> nat \<Rightarrow> nat \<Rightarrow> nat \<Rightarrow> nat \<Rightarrow> ushort" where
  "partial_sum src L W q ch m =
     (if m = 0 then 0 else if m = 1 then row_sum src L W q ch 0
      else row_sum src L W q ch 0 + row_sum src L W q ch 1)"

definition ds_inv :: "nat \<Rightarrow> nat \<Rightarrow> nat \<Rightarrow> uint8 list \<Rightarrow> downscale_vars \<Rightarrow> bool" where
  "ds_inv W H L src v \<longleftrightarrow>
     accumRowsDone v \<le> H \<and>
     (if accumRowsDone v < H \<and> 0 < W then rowPixelsDone v < W \<and> srcRowsPerAccumRow v < 2
      else rowPixelsDone v = 0 \<and> srcRowsPerAccumRow v = 0) \<and>
     accumRow v = accumRowsDone v * (3 * W) \<and>
     accum v = accumRowsDone v * (3 * W) + 3 * rowPixelsDone v \<and>
     srcPixel v = (2 * accumRowsDone v + srcRowsPerAccumRow v) * L + 6 * rowPixelsDone v \<and>
     length (accs v) = 3 * (W * H) \<and>
     (\<forall>q ch. q < W * H \<and> ch < 3 \<longrightarrow>
        accs v ! (3 * q + ch) =
          partial_sum src L W q ch
            (contributed W (accumRowsDone v) (srcRowsPerAccumRow v) (rowPixelsDone v) q))"

definition ds_progress :: "nat \<Rightarrow> downscale_vars \<Rightarrow> nat" where
  "ds_progress W v = (2 * accumRowsDone v + srcRowsPerAccumRow v) * W + rowPixelsDone v"

definition ds_ok :: "nat \<Rightarrow> nat \<Rightarrow> nat \<Rightarrow> uint8 list \<Rightarrow> fault + downscale_vars \<Rightarrow> bool" where
  "ds_ok W H L src r = (case r of Inl e \<Rightarrow> False | Inr v \<Rightarrow> ds_inv W H L src v)"

definition ds_left :: "nat \<Rightarrow> nat \<Rightarrow> fault + downscale_vars \<Rightarrow> nat" where
  "ds_left W H r = (case r of Inl e \<Rightarrow> 0 | Inr v \<Rightarrow> 2 * W * H - ds_progress W v)"

text \<open>
  The two passes of \<open>generateMotionMask\<close> in closed form, pixel by pixel. \<open>differs\<close> is
  the difference test at pixel \<open>i\<close> of two images; \<open>tracked_byte\<close> and \<open>tracked_time\<close>
  are a byte of the tracked image and a timer after the first pass; \<open>promoted_ref\<close>,
  \<open>promoted_record\<close> and \<open>raw_mask\<close> are a byte of the reference image, a record and a
  byte of the mask after the second pass; \<open>updated frame s\<close> is the object after both
  passes on the downscaled \<open>frame\<close>.
\<close>

definition differs :: "int \<Rightarrow> uint8 list \<Rightarrow> uint8 list \<Rightarrow> nat \<Rightarrow> bool" where
  "differs thr a b i \<longleftrightarrow> (\<exists>c<3. thr < \<bar>uint (a ! (3 * i + c)) - uint (b ! (3 * i + c))\<bar>)"

definition tracked_byte :: "int \<Rightarrow> uint8 list \<Rightarrow> uint8 list \<Rightarrow> nat \<Rightarrow> uint8" where
  "tracked_byte thr tip cip k =
     (if differs thr tip cip (k div 3) then tip ! k
      else cip ! k + word_of_int (Math_sign (uint (tip ! k) - uint (cip ! k))))"

definition tracked_time :: "int \<Rightarrow> uint8 list \<Rightarrow> uint8 list \<Rightarrow> uint32 list \<Rightarrow> nat \<Rightarrow> uint32" where
  "tracked_time thr tip cip timers i = (if differs thr tip cip i then 0 else timers ! i + 1)"

definition promoted_ref :: "uint8 list \<Rightarrow> uint32 list \<Rightarrow> uint8 list \<Rightarrow> uint32 list \<Rightarrow> nat \<Rightarrow> uint8" where
  "promoted_ref cip timers rip records k =
     (if records ! (k div 3) < timers ! (k div 3) then cip ! k else rip ! k)"

definition promoted_record :: "uint32 \<Rightarrow> uint32 list \<Rightarrow> uint32 list \<Rightarrow> nat \<Rightarrow> uint32" where
  "promoted_record cap timers records i =
     (if records ! i < timers ! i then min (timers ! i) cap else records ! i)"

definition raw_mask :: "int \<Rightarrow> uint8 list \<Rightarrow> uint8 list \<Rightarrow> uint8 list \<Rightarrow> nat \<Rightarrow> uint8" where
  "raw_mask thr cip rip bmp k =
     (if k mod 3 = 0 then (if differs thr rip cip (k div 3) then 255 else 0) else bmp ! k)"

definition updated :: "VideoFrame \<Rightarrow> MotionExtractor \<Rightarrow> MotionExtractor" where
  "updated frame s =
     (let m = imageArea s; thr = motionThreshold s; tip = downscaled frame;
          cip = map (tracked_byte thr tip (getPixels (currentImage s))) [0..<3 * m];
          timers = map (tracked_time thr tip (getPixels (currentImage s)) (currentStableTimes s)) [0..<m];
          rip = map (promoted_ref cip timers (getPixels (refImage s)) (stableRecords s)) [0..<3 * m]
      in s\<lparr>downscaleBuff := (downscaleBuff s)\<lparr>getPixels := tip\<rparr>,
           currentImage := (currentImage s)\<lparr>getPixels := cip\<rparr>,
           currentStableTimes := timers,
           refImage := (refImage s)\<lparr>getPixels := rip\<rparr>,
           stableRecords := map (promoted_record (stableCap s) timers (stableRecords s)) [0..<m],
           motionMask := (motionMask s)
             \<lparr>getPixels := map (raw_mask thr cip rip (getPixels (motionMask s))) [0..<3 * m]\<rparr>\<rparr>)"

text \<open>
  \<open>settled\<close>: no pixel below \<open>m\<close> differs between two images. \<open>records_capped\<close>: every
  stability record is at most \<open>stableCap\<close>. \<open>good\<close> collects what the convergence
  argument asks of a state. \<open>run_frames\<close> calls \<open>generateMotionMask\<close> with the same frame
  once for each clock reading of the list. \<open>state_after\<close> is the object an operation
  leaves behind, whether it returned or threw.
\<close>

definition settled :: "int \<Rightarrow> uint8 list \<Rightarrow> uint8 list \<Rightarrow> nat \<Rightarrow> bool" where
  "settled thr a b m \<longleftrightarrow> (\<forall>i<m. \<not> differs thr a b i)"

definition records_capped :: "MotionExtractor \<Rightarrow> bool" where
  "records_capped s \<longleftrightarrow> list_all (\<lambda>r. r \<le> stableCap s) (stableRecords s)"

definition good :: "VideoFrame \<Rightarrow> MotionExtractor \<Rightarrow> bool" where
  "good frame s \<longleftrightarrow>
     state_ok s \<and> frame_fits s frame \<and> erosionLevel s \<le> 0 \<and> 0 \<le> motionThreshold s \<and>
     records_capped s"

fun run_frames :: "timing list \<Rightarrow> VideoFrame \<Rightarrow> MotionExtractor \<Rightarrow> MotionExtractor outcome" where
  "run_frames [] frame s = Returns s"
| "run_frames (tm # tms) frame s =
     (case generateMotionMask tm frame s of
        Returns s' \<Rightarrow> run_frames tms frame s'
      | Throws e s' \<Rightarrow> Throws e s'
      | Faults f \<Rightarrow> Faults f)"

fun state_after :: "MotionExtractor outcome \<Rightarrow> MotionExtractor option" where
  "state_after (Returns s) = Some s"
| "state_after (Throws e s) = Some s"
| "state_after (Faults f) = None"

text \<open>A frame of 2 by 2 pixels of one colour, and a clock that stands still.\<close>

definition flat_frame :: "uint8 \<Rightarrow> VideoFrame" where
  "flat_frame v = \<lparr>getWidth = 2, getHeight = 2, getBytesPerPixel = 3, getPixels = replicate 12 v\<rparr>"

definition tm0 :: timing where
  "tm0 = \<lparr>clock_first = 0, clock_second = 0, CLOCKS_PER_SEC = 1000000\<rparr>"

text \<open>
  The neighbour count of the erosion pass in the words of the specification: the eight
  neighbours of \<open>(x, y)\<close> are the pixels to the left and right and the three pixels in the
  row above and in the row below; a neighbour counts when both its coordinates are
  positive and its indicator byte is on. \<open>corner_mask\<close> is a mask of 3 by 3 pixels with the
  indicator on at \<open>(1,1)\<close>, \<open>(2,1)\<close> and \<open>(1,2)\<close>, and \<open>corner_state\<close> an object for frames of
  6 by 6 pixels that holds this mask, with erosion level 2.
\<close>

definition spec_neighbours :: "(int \<times> int) list" where
  "spec_neighbours = [(- 1, 0), (1, 0), (- 1, - 1), (0, - 1), (1, - 1), (- 1, 1), (0, 1), (1, 1)]"

definition indicator_on :: "nat \<Rightarrow> uint8 list \<Rightarrow> int \<Rightarrow> int \<Rightarrow> bool" where
  "indicator_on w bmp x y \<longleftrightarrow> bmp ! (nat (y * int w + x) * kBytesPerPixel) > 0"

definition spec_adjacents :: "nat \<Rightarrow> uint8 list \<Rightarrow> int \<Rightarrow> int \<Rightarrow> int" where
  "spec_adjacents w bmp x y =
     int (length (filter (\<lambda>d. x + fst d > 0 \<and> y + snd d > 0 \<and> indicator_on w bmp (x + fst d) (y + snd d))
                    spec_neighbours))"

definition corner_mask :: "uint8 list" where
  "corner_mask = [0, 0, 0,  0, 0, 0,  0, 0, 0,
                  0, 0, 0,  255, 0, 0,  255, 0, 0,
                  0, 0, 0,  255, 0, 0,  0, 0, 0]"

definition corner_state :: MotionExtractor where
  "corner_state = (constructed (\<lambda>k i. 0) 0 6 6 1 False 1)
     \<lparr>motionMask := \<lparr>getWidth = 3, getHeight = 3, getBytesPerPixel = 3, getPixels = corner_mask\<rparr>,
      erosionLevel := 2, firstFrame := False\<rparr>"


section \<open>Properties\<close>

lemma pixelIsDifferent_from_iff:
  "pixelIsDifferent_from thr pa pb b n \<longleftrightarrow> (\<exists>c. b \<le> c \<and> c < b + n \<and> \<bar>uint (pa ! c) - uint (pb ! c)\<bar> > thr)"
proof (induction n arbitrary: b)
  case 0
  show ?case by simp
next
  case (Suc n)
  show ?case
  proof (cases "\<bar>uint (pa ! b) - uint (pb ! b)\<bar> > thr")
    case True
    then show ?thesis by auto
  next
    case False
    have "(\<exists>c. Suc b \<le> c \<and> c < Suc b + n \<and> \<bar>uint (pa ! c) - uint (pb ! c)\<bar> > thr)
      \<longleftrightarrow> (\<exists>c. b \<le> c \<and> c < b + Suc n \<and> \<bar>uint (pa ! c) - uint (pb ! c)\<bar> > thr)"
      using False by (metis Suc_leD Suc_le_eq add_Suc add_Suc_right le_neq_implies_less)
    with Suc.IH [of "Suc b"] False show ?thesis by simp
  qed
qed

subsection \<open>The difference test\<close>

text \<open>
  Claim C3. For all pixels \<open>a\<close> and \<open>b\<close>, the difference test is true iff some channel among
  the \<open>kBytesPerPixel\<close> channels has an absolute difference above the sensitivity, and false
  iff every channel's absolute difference is at most the sensitivity; so a difference
  equal to the sensitivity does not make the pixels different.
\<close>

theorem pixelIsDifferent_threshold:
  "(pixelIsDifferent thr pa pb \<longleftrightarrow> (\<exists>c<kBytesPerPixel. \<bar>uint (pa ! c) - uint (pb ! c)\<bar> > thr)) \<and>
   (\<not> pixelIsDifferent thr pa pb \<longleftrightarrow> (\<forall>c<kBytesPerPixel. \<bar>uint (pa ! c) - uint (pb ! c)\<bar> \<le> thr))"
  unfolding pixelIsDifferent_def pixelIsDifferent_from_iff
  by (simp add: not_less) (metis not_le)

theorem pixelIsDifferent_threshold_witness:
  "\<not> pixelIsDifferent 26 [100, 100, 100] [126, 74, 100] \<and>
   pixelIsDifferent 26 [100, 100, 100] [100, 100, 127]"
  using pixelIsDifferent_threshold [of 26 "[100, 100, 100]" "[126, 74, 100]"]
    pixelIsDifferent_threshold [of 26 "[100, 100, 100]" "[100, 100, 127]"]
  by (simp add: kBytesPerPixel_def numeral_3_eq_3 All_less_Suc Ex_less_Suc)

subsection \<open>Construction and the parameter store\<close>

lemma double_to_uint_of_int:
  "double_to_uint (of_int k) = (if 0 \<le> k \<and> k < 2 ^ 32 then Some (word_of_int k) else None)"
  by (simp add: double_to_uint_def Let_def)

lemma double_to_uint_Some:
  assumes "double_to_uint (of_int k) = Some c"
  shows "int (unat c) = k"
proof -
  from assms have k: "0 \<le> k" "k < 2 ^ 32" and c: "c = word_of_int k"
    by (simp_all add: double_to_uint_of_int split: if_splits)
  have "uint c = take_bit 32 k"
    unfolding c by (simp add: uint_word_of_int_eq)
  also have "\<dots> = k"
    using k by (intro take_bit_int_eq_self) simp_all
  finally show ?thesis by simp
qed

lemma double_to_uint_numeral:
  "double_to_uint (numeral w) = (if (numeral w :: int) < 2 ^ 32 then Some (numeral w) else None)"
  using double_to_uint_of_int [of "numeral w"] by simp

lemma constructed_params [simp]:
  "fps (constructed mem now w h rate b cap) = rate"
  "motionThreshold (constructed mem now w h rate b cap) = 26"
  "erosionLevel (constructed mem now w h rate b cap) = 5"
  "stableCap (constructed mem now w h rate b cap) = cap"
  by (simp_all add: constructed_def reset_def Let_def)

text \<open>
  Claim C10. Right after construction, with a frame rate for which the conversion of
  \<open>ceil(fps)\<close> to \<open>unsigned int\<close> is defined, the object exists, the sensitivity is 26, the
  erosion level is 5, \<open>stableCap\<close> is \<open>ceil(fps)\<close> and the settle time reported is the
  (rounded) quotient \<open>ceil(fps) / fps\<close>.
\<close>

theorem construction_defaults:
  assumes "- 1 < rate" and "rate \<le> 4294967295"
  shows "\<exists>s. new_MotionExtractor mem now w h rate b = Returns s \<and>
     getSensitivity s = 26 \<and> getErosion s = 5 \<and>
     int (unat (stableCap s)) = \<lceil>rate\<rceil> \<and>
     getSettleTime rnd s = rnd (of_int \<lceil>rate\<rceil> / rate)"
proof -
  have lo: "0 \<le> \<lceil>rate\<rceil>" using assms(1) by linarith
  have "\<lceil>rate\<rceil> \<le> 4294967295" using assms(2) by (simp add: ceiling_le_iff)
  then have hi: "\<lceil>rate\<rceil> < 2 ^ 32" by simp
  from lo hi have conv: "double_to_uint (of_int \<lceil>rate\<rceil>) = Some (word_of_int \<lceil>rate\<rceil>)"
    by (simp add: double_to_uint_of_int)
  have u: "int (unat (word_of_int \<lceil>rate\<rceil> :: uint32)) = \<lceil>rate\<rceil>"
    using double_to_uint_Some [OF conv] .
  have "real (unat (word_of_int \<lceil>rate\<rceil> :: uint32)) = of_int \<lceil>rate\<rceil>"
    using u by (metis of_int_of_nat_eq)
  then show ?thesis
    using conv u by (simp add: new_MotionExtractor_def getSensitivity_def getErosion_def getSettleTime_def)
qed

theorem construction_defaults_witness:
  "\<exists>s. new_MotionExtractor (\<lambda>k i. 0) 0 640 480 30 False = Returns s \<and>
     getSensitivity s = 26 \<and> getErosion s = 5 \<and>
     int (unat (stableCap s)) = 30 \<and>
     getSettleTime (\<lambda>x. x) s = 1"
  using construction_defaults [of 30 "\<lambda>k i. 0" 0 640 480 False "\<lambda>x. x"] by simp

text \<open>
  Claim C8. Each setter throws the out-of-range exception exactly outside its interval
  (\<open>[1,127]\<close>, \<open>[1,60]\<close>, \<open>[0,8]\<close>); whenever a setter throws, the state is the prior
  state; when it returns, the state is the prior state with the new parameter stored
  (for the settle time: \<open>stableCap = ceil(rnd (seconds * fps))\<close>) and \<open>reset()\<close> applied.
\<close>

theorem setters_validate:
  "((\<exists>s'. setSensitivity v s = Throws ArgumentOutOfRangeException s') \<longleftrightarrow> (v < 1 \<or> v > 127)) \<and>
   ((\<exists>s'. setSettleTime rnd t s = Throws ArgumentOutOfRangeException s') \<longleftrightarrow> (t < 1 \<or> t > 60)) \<and>
   ((\<exists>s'. setErosion e s = Throws ArgumentOutOfRangeException s') \<longleftrightarrow> (e < 0 \<or> e > 8)) \<and>
   (\<forall>x s'. setSensitivity v s = Throws x s' \<longrightarrow> s' = s) \<and>
   (\<forall>x s'. setSettleTime rnd t s = Throws x s' \<longrightarrow> s' = s) \<and>
   (\<forall>x s'. setErosion e s = Throws x s' \<longrightarrow> s' = s) \<and>
   (1 \<le> v \<and> v \<le> 127 \<longrightarrow> setSensitivity v s = Returns (reset (s\<lparr>motionThreshold := v\<rparr>))) \<and>
   (\<forall>s'. setSettleTime rnd t s = Returns s' \<longrightarrow>
      double_to_uint (of_int \<lceil>rnd (t * fps s)\<rceil>) = Some (stableCap s') \<and>
      s' = reset (s\<lparr>stableCap := stableCap s'\<rparr>)) \<and>
   (1 \<le> t \<and> t \<le> 60 \<and> 0 \<le> \<lceil>rnd (t * fps s)\<rceil> \<and> \<lceil>rnd (t * fps s)\<rceil> < 2 ^ 32 \<longrightarrow>
      (\<exists>s'. setSettleTime rnd t s = Returns s')) \<and>
   (0 \<le> e \<and> e \<le> 8 \<longrightarrow> setErosion e s = Returns (reset (s\<lparr>erosionLevel := e\<rparr>)))"
  by (auto simp: setSensitivity_def setSettleTime_def setErosion_def double_to_uint_of_int reset_def
      split: option.splits if_splits)

theorem setters_validate_witness:
  "setSensitivity 128 (constructed (\<lambda>k i. 0) 0 4 4 30 False 30)
     = Throws ArgumentOutOfRangeException (constructed (\<lambda>k i. 0) 0 4 4 30 False 30) \<and>
   setSensitivity 127 (constructed (\<lambda>k i. 0) 0 4 4 30 False 30)
     = Returns (reset ((constructed (\<lambda>k i. 0) 0 4 4 30 False 30)\<lparr>motionThreshold := 127\<rparr>)) \<and>
   (\<exists>s'. setSettleTime (\<lambda>x. x) 2 (constructed (\<lambda>k i. 0) 0 4 4 30 False 30) = Returns s' \<and>
      stableCap s' = 60) \<and>
   setErosion 0 (constructed (\<lambda>k i. 0) 0 4 4 30 False 30)
     = Returns (reset ((constructed (\<lambda>k i. 0) 0 4 4 30 False 30)\<lparr>erosionLevel := 0\<rparr>))"
proof -
  let ?s = "constructed (\<lambda>k i. 0) 0 4 4 30 False 30"
  note t = setters_validate [of 128 ?s "\<lambda>x. x" 2 0] setters_validate [of 127 ?s "\<lambda>x. x" 2 0]
  have 1: "setSensitivity 128 ?s = Throws ArgumentOutOfRangeException ?s"
    using t(1) by auto
  have 2: "setSensitivity 127 ?s = Returns (reset (?s\<lparr>motionThreshold := 127\<rparr>))"
    using t(2) by simp
  have "\<exists>s'. setSettleTime (\<lambda>x. x) 2 ?s = Returns s'"
    using t(1) by simp
  then obtain s' where r: "setSettleTime (\<lambda>x. x) 2 ?s = Returns s'" ..
  with t(1) have "double_to_uint (of_int \<lceil>2 * fps ?s\<rceil>) = Some (stableCap s')"
    by blast
  then have 3: "stableCap s' = 60"
    by (simp add: double_to_uint_numeral)
  have 4: "setErosion 0 ?s = Returns (reset (?s\<lparr>erosionLevel := 0\<rparr>))"
    using t(1) by simp
  from 1 2 3 4 r show ?thesis by blast
qed

lemma load_applies:
  assumes "load_decodes obj si td ei" "params_in_range si td ei"
    "double_to_uint (of_int \<lceil>rnd (td * fps s)\<rceil>) = Some c"
  shows "load rnd obj s = Returns (reset (s\<lparr>motionThreshold := si, stableCap := c, erosionLevel := ei\<rparr>))"
  using assms
  by (simp add: load_def load_decodes_def params_in_range_def Let_def setSensitivity_def
      setSettleTime_def setErosion_def reset_def)




lemma save_decodes:
  assumes "in_int_range (motionThreshold s)" "in_int_range (erosionLevel s)"
  shows "load_decodes (save rnd s obj) (getSensitivity s) (getSettleTime rnd s) (getErosion s)"
  using assms
  by (simp add: load_decodes_def save_def isNull_def asInt_def asDouble_def getSensitivity_def getErosion_def)

lemma double_to_uint_unat:
  "double_to_uint (of_int (int (unat (c :: uint32)))) = Some c"
proof -
  have "uint c < 2 ^ 32" using uint_bounded [of c] by simp
  then have "double_to_uint (of_int (uint c)) = Some c"
    by (simp only: double_to_uint_of_int) simp
  then show ?thesis by simp
qed

text \<open>
  Claim C9. What \<open>load\<close> does with the object \<open>save\<close> wrote, for an instance \<open>s\<close> whose
  sensitivity and erosion level are in range and any instance \<open>f0\<close> that loads. When the
  settle time reported by \<open>s\<close>, \<open>stableCap / fps\<close>, is outside \<open>[1,60]\<close>, \<open>load\<close> throws the
  file exception and \<open>f0\<close> keeps its parameters: the round trip fails. This happens after
  a call of \<open>setSettleTime\<close> that was accepted, since the setter rounds \<open>seconds * fps\<close> up
  to whole frames: at 29.97 frames per second \<open>setSettleTime(60)\<close> stores 1799 frames, and
  \<open>1799 / 29.97 > 60\<close>. When the settle time is inside \<open>[1,60]\<close>, \<open>load\<close> stores the
  sensitivity, the erosion level, and the frame count \<open>ceil(rnd (settleTime * fps))\<close>
  computed from the rounded quotient.
\<close>

theorem save_load_outcome:
  assumes sens: "1 \<le> motionThreshold s" "motionThreshold s \<le> 127"
    and ero: "0 \<le> erosionLevel s" "erosionLevel s \<le> 8"
  shows "(getSettleTime rnd s < 1 \<or> 60 < getSettleTime rnd s \<longrightarrow>
       load rnd (save rnd s obj) f0 = Throws FileException f0) \<and>
     (\<forall>c. 1 \<le> getSettleTime rnd s \<and> getSettleTime rnd s \<le> 60 \<and>
        double_to_uint (of_int \<lceil>rnd (getSettleTime rnd s * fps f0)\<rceil>) = Some c \<longrightarrow>
       load rnd (save rnd s obj) f0 =
         Returns (reset (f0\<lparr>motionThreshold := getSensitivity s, stableCap := c,
                           erosionLevel := getErosion s\<rparr>)))"
proof (intro conjI allI impI)
  have dec: "load_decodes (save rnd s obj) (getSensitivity s) (getSettleTime rnd s) (getErosion s)"
    using sens ero by (intro save_decodes) (simp_all add: in_int_range_def)
  {
    assume out: "getSettleTime rnd s < 1 \<or> 60 < getSettleTime rnd s"
    from dec out show "load rnd (save rnd s obj) f0 = Throws FileException f0"
      by (auto simp: load_def load_decodes_def Let_def)
  }
  {
    fix c
    assume h: "1 \<le> getSettleTime rnd s \<and> getSettleTime rnd s \<le> 60 \<and>
        double_to_uint (of_int \<lceil>rnd (getSettleTime rnd s * fps f0)\<rceil>) = Some c"
    then have rng: "params_in_range (getSensitivity s) (getSettleTime rnd s) (getErosion s)"
      using sens ero by (simp add: params_in_range_def getSensitivity_def getErosion_def)
    from h have conv: "double_to_uint (of_int \<lceil>rnd (getSettleTime rnd s * fps f0)\<rceil>) = Some c"
      by simp
    show "load rnd (save rnd s obj) f0 =
         Returns (reset (f0\<lparr>motionThreshold := getSensitivity s, stableCap := c,
                           erosionLevel := getErosion s\<rparr>))"
      using dec rng conv by (rule load_applies)
  }
qed

theorem save_load_outcome_witness:
  "new_MotionExtractor (\<lambda>k i. 0) 0 4 4 (2997 / 100) False
      = Returns (constructed (\<lambda>k i. 0) 0 4 4 (2997 / 100) False 30) \<and>
   setSettleTime (\<lambda>x. x) 60 (constructed (\<lambda>k i. 0) 0 4 4 (2997 / 100) False 30)
      = Returns (reset ((constructed (\<lambda>k i. 0) 0 4 4 (2997 / 100) False 30)\<lparr>stableCap := 1799\<rparr>)) \<and>
   getSensitivity (reset ((constructed (\<lambda>k i. 0) 0 4 4 (2997 / 100) False 30)\<lparr>stableCap := 1799\<rparr>)) = 26 \<and>
   getErosion (reset ((constructed (\<lambda>k i. 0) 0 4 4 (2997 / 100) False 30)\<lparr>stableCap := 1799\<rparr>)) = 5 \<and>
   60 < getSettleTime (\<lambda>x. x) (reset ((constructed (\<lambda>k i. 0) 0 4 4 (2997 / 100) False 30)\<lparr>stableCap := 1799\<rparr>)) \<and>
   load (\<lambda>x. x)
      (save (\<lambda>x. x) (reset ((constructed (\<lambda>k i. 0) 0 4 4 (2997 / 100) False 30)\<lparr>stableCap := 1799\<rparr>)) (\<lambda>k. JNull))
      (constructed (\<lambda>k i. 0) 0 4 4 (2997 / 100) False 30)
      = Throws FileException (constructed (\<lambda>k i. 0) 0 4 4 (2997 / 100) False 30) \<and>
   getSettleTime (\<lambda>x. x) (constructed (\<lambda>k i. 0) 0 4 4 (2997 / 100) False 30)
      \<noteq> getSettleTime (\<lambda>x. x) (reset ((constructed (\<lambda>k i. 0) 0 4 4 (2997 / 100) False 30)\<lparr>stableCap := 1799\<rparr>)) \<and>
   getSettleTime (\<lambda>x. x) ((constructed (\<lambda>k i. 0) 0 4 4 30 False 30)\<lparr>motionThreshold := 50\<rparr>) = 1 \<and>
   load (\<lambda>x. x) (save (\<lambda>x. x) ((constructed (\<lambda>k i. 0) 0 4 4 30 False 30)\<lparr>motionThreshold := 50\<rparr>) (\<lambda>k. JNull))
       (constructed (\<lambda>k i. 1) 7 4 4 30 False 30)
     = Returns (reset ((constructed (\<lambda>k i. 1) 7 4 4 30 False 30)
         \<lparr>motionThreshold := 50, stableCap := 30, erosionLevel := 5\<rparr>))"
proof -
  let ?s0 = "constructed (\<lambda>k i. 0) 0 4 4 (2997 / 100) False 30"
  let ?s1 = "reset (?s0\<lparr>stableCap := 1799\<rparr>)"
  let ?p = "(constructed (\<lambda>k i. 0) 0 4 4 30 False 30)\<lparr>motionThreshold := 50\<rparr>"
  let ?f = "constructed (\<lambda>k i. 1) 7 4 4 30 False 30"
  have c30: "\<lceil>2997 / 100 :: real\<rceil> = 30" by simp
  have 1: "new_MotionExtractor (\<lambda>k i. 0) 0 4 4 (2997 / 100) False = Returns ?s0"
    unfolding new_MotionExtractor_def c30 by (simp add: double_to_uint_numeral)
  have c1799: "\<lceil>(60 :: real) * (2997 / 100)\<rceil> = 1799" by simp
  have 2: "setSettleTime (\<lambda>x. x) 60 ?s0 = Returns ?s1"
    unfolding setSettleTime_def using c1799 by (simp add: double_to_uint_numeral)
  have g1: "getSettleTime (\<lambda>x. x) ?s1 = 1799 / (2997 / 100)"
    by (simp add: getSettleTime_def reset_def)
  have v1: "motionThreshold ?s1 = 26" "erosionLevel ?s1 = 5"
    by (simp_all add: reset_def)
  have 3: "getSensitivity ?s1 = 26" "getErosion ?s1 = 5"
    by (simp_all add: getSensitivity_def getErosion_def reset_def)
  have 4: "60 < getSettleTime (\<lambda>x. x) ?s1" unfolding g1 by simp
  from save_load_outcome [of ?s1 "\<lambda>x. x" "\<lambda>k. JNull" ?s0, THEN conjunct1] v1 4
  have 5: "load (\<lambda>x. x) (save (\<lambda>x. x) ?s1 (\<lambda>k. JNull)) ?s0 = Throws FileException ?s0"
    by simp
  have 6: "getSettleTime (\<lambda>x. x) ?s0 \<noteq> getSettleTime (\<lambda>x. x) ?s1"
    unfolding g1 by (simp add: getSettleTime_def)
  have g2: "getSettleTime (\<lambda>x. x) ?p = 1" by (simp add: getSettleTime_def)
  have v2: "motionThreshold ?p = 50" "erosionLevel ?p = 5" "getSensitivity ?p = 50" "getErosion ?p = 5"
    by (simp_all add: getSensitivity_def getErosion_def)
  have conv: "double_to_uint (of_int \<lceil>(\<lambda>x. x) (getSettleTime (\<lambda>x. x) ?p * fps ?f)\<rceil>) = Some 30"
    unfolding g2 by (simp add: double_to_uint_numeral)
  from save_load_outcome [of ?p "\<lambda>x. x" "\<lambda>k. JNull" ?f, THEN conjunct2, rule_format, of 30] v2 g2 conv
  have 7: "load (\<lambda>x. x) (save (\<lambda>x. x) ?p (\<lambda>k. JNull)) ?f
     = Returns (reset (?f\<lparr>motionThreshold := 50, stableCap := 30, erosionLevel := 5\<rparr>))"
    by simp
  show ?thesis
    apply (intro conjI)
            apply (rule 1)
           apply (rule 2)
          apply (rule 3(1))
         apply (rule 3(2))
        apply (rule 4)
       apply (rule 5)
      apply (rule 6)
     apply (rule g2)
    apply (rule 7)
    done
qed

subsection \<open>downscale\<close>

lemma upt_3: "[0..<3] = [0, 1, 2]"
  by (simp add: upt_rec)

lemma upt_2: "[0..<2] = [0, 1]"
  by (simp add: upt_rec)

lemma accumulate_pixel_ok:
  assumes "sp + 2 < length src" "a + 2 < length acc"
  shows "accumulate_pixel src a p (sp, acc) =
     Inr (sp + 3, acc[a := acc ! a + ucast (src ! sp),
                      a + 1 := acc ! (a + 1) + ucast (src ! (sp + 1)),
                      a + 2 := acc ! (a + 2) + ucast (src ! (sp + 2))])"
  using assms by (simp add: accumulate_pixel_def upt_3 add_channel_def kBytesPerPixel_def del: upt_Suc)

lemma accumulate_block:
  assumes "sp + 5 < length src" "a + 2 < length acc"
  shows "\<exists>acc'. for_each (accumulate_pixel src a) [0..<kDownscaleRatio] (sp, acc) = Inr (sp + 6, acc') \<and>
     length acc' = length acc \<and>
     (\<forall>i. acc' ! i = (if a \<le> i \<and> i < a + 3
                       then acc ! i + ucast (src ! (sp + (i - a))) + ucast (src ! (sp + 3 + (i - a)))
                       else acc ! i))"
proof -
  let ?acc1 = "acc[a := acc ! a + ucast (src ! sp),
                      a + 1 := acc ! (a + 1) + ucast (src ! (sp + 1)),
                      a + 2 := acc ! (a + 2) + ucast (src ! (sp + 2))]"
  let ?acc2 = "?acc1[a := ?acc1 ! a + ucast (src ! (sp + 3)),
                      a + 1 := ?acc1 ! (a + 1) + ucast (src ! (sp + 3 + 1)),
                      a + 2 := ?acc1 ! (a + 2) + ucast (src ! (sp + 3 + 2))]"
  have 1: "accumulate_pixel src a p (sp, acc) = Inr (sp + 3, ?acc1)" for p
    using assms by (intro accumulate_pixel_ok) simp_all
  have 2: "accumulate_pixel src a p (sp + 3, ?acc1) = Inr (sp + 3 + 3, ?acc2)" for p
    using assms by (intro accumulate_pixel_ok) simp_all
  have run: "for_each (accumulate_pixel src a) [0..<kDownscaleRatio] (sp, acc) = Inr (sp + 6, ?acc2)"
    unfolding kDownscaleRatio_def upt_2 for_each.simps 1 sum.case 2 by simp
  have len: "length ?acc2 = length acc" by simp
  have nth: "?acc2 ! i = (if a \<le> i \<and> i < a + 3
                       then acc ! i + ucast (src ! (sp + (i - a))) + ucast (src ! (sp + 3 + (i - a)))
                       else acc ! i)" for i
  proof -
    consider "i = a" | "i = a + 1" | "i = a + 2" | "i < a" | "a + 3 \<le> i" by linarith
    then show ?thesis
      using assms(2) by cases (simp_all add: nth_list_update)
  qed
  from run len nth show ?thesis by blast
qed

lemma contributed_next_col:
  assumes "j + 1 < W"
  shows "contributed W R k (j + 1) q = (if q = R * W + j then k + 1 else contributed W R k j q)"
  using assms by (auto simp: contributed_def)

lemma contributed_next_srcrow:
  assumes "j + 1 = W"
  shows "contributed W R 1 0 q = (if q = R * W + j then 0 + 1 else contributed W R 0 j q)"
  using assms by (auto simp: contributed_def)

lemma contributed_next_row:
  assumes "j + 1 = W"
  shows "contributed W (R + 1) 0 0 q = (if q = R * W + j then 1 + 1 else contributed W R 1 j q)"
  using assms by (auto simp: contributed_def add_mult_distrib)

lemma contributed_current:
  assumes "j < W"
  shows "contributed W R k j (R * W + j) = k"
  using assms by (simp add: contributed_def)

lemma partial_sum_step:
  assumes "k < 2"
  shows "partial_sum src L W q ch k + row_sum src L W q ch k = partial_sum src L W q ch (k + 1)"
proof -
  from assms consider "k = 0" | "k = 1" by linarith
  then show ?thesis by cases (simp_all add: partial_sum_def)
qed

lemma downscale_step_inv:
  assumes inv: "ds_inv W H L src v"
    and cond: "accum v < length (accs v)"
    and geom: "imageWidth s = W" "destLineSize s = 3 * W" "srcLineSize s = L"
    and fits: "6 * W \<le> L" "2 * H * L \<le> length src"
  shows "\<exists>v'. downscale_step s src v = Inr v' \<and> ds_inv W H L src v' \<and>
     ds_progress W v' = ds_progress W v + 1 \<and> ds_progress W v < 2 * W * H"
proof -
  define R where "R = accumRowsDone v"
  define k where "k = srcRowsPerAccumRow v"
  define j where "j = rowPixelsDone v"
  note defs = R_def k_def j_def
  from inv have I: "R \<le> H" "accumRow v = R * (3 * W)" "accum v = R * (3 * W) + 3 * j"
      "srcPixel v = (2 * R + k) * L + 6 * j" "length (accs v) = 3 * (W * H)"
    and pos: "if R < H \<and> 0 < W then j < W \<and> k < 2 else j = 0 \<and> k = 0"
    and content: "\<And>q ch. q < W * H \<Longrightarrow> ch < 3 \<Longrightarrow>
        accs v ! (3 * q + ch) = partial_sum src L W q ch (contributed W R k j q)"
    by (simp_all add: ds_inv_def defs)
  have W0: "0 < W" using cond I(5) by (cases W) simp_all
  have RH: "R < H"
  proof (rule ccontr)
    assume "\<not> R < H"
    with I(1) pos have "R = H" "j = 0" by simp_all
    with I(3,5) cond show False by (simp add: mult.commute mult.left_commute)
  qed
  with pos W0 have jW: "j < W" and k2: "k < 2" by simp_all
  have rows: "R * W + W \<le> W * H"
  proof -
    have "(R + 1) * W \<le> H * W" using RH by (intro mult_le_mono1) simp
    then show ?thesis by (simp add: add_mult_distrib mult.commute)
  qed
  have pix: "R * W + j < W * H" using rows jW by linarith
  have a_eq: "accum v = 3 * (R * W + j)" using I(3) by (simp add: algebra_simps)
  have a_ok: "accum v + 2 < length (accs v)" using a_eq pix I(5) by simp
  have sp_ok: "srcPixel v + 5 < length src"
  proof -
    have "(2 * R + k + 1) * L \<le> (2 * H) * L" using RH k2 by (intro mult_le_mono1) linarith
    then have "(2 * R + k) * L + L \<le> length src" using fits(2) by (simp add: add_mult_distrib)
    moreover have "6 * j + 5 < L" using jW fits(1) by linarith
    ultimately show ?thesis using I(4) by linarith
  qed
  from accumulate_block [OF sp_ok a_ok]
  obtain acc' where run: "for_each (accumulate_pixel src (accum v)) [0..<kDownscaleRatio]
        (srcPixel v, accs v) = Inr (srcPixel v + 6, acc')"
    and len': "length acc' = length (accs v)"
    and nth': "\<And>i. acc' ! i = (if accum v \<le> i \<and> i < accum v + 3
         then accs v ! i + ucast (src ! (srcPixel v + (i - accum v)))
              + ucast (src ! (srcPixel v + 3 + (i - accum v)))
         else accs v ! i)"
    by blast
  have content': "acc' ! (3 * q + ch) =
      partial_sum src L W q ch (if q = R * W + j then k + 1 else contributed W R k j q)"
    if q: "q < W * H" and ch: "ch < 3" for q ch
  proof (cases "q = R * W + j")
    case True
    have dm: "q div W = R" "q mod W = j" using True jW by simp_all
    have idx: "accum v \<le> 3 * q + ch \<and> 3 * q + ch < accum v + 3" "3 * q + ch - accum v = ch"
      using True a_eq ch by simp_all
    have rs: "row_sum src L W q ch k =
        ucast (src ! (srcPixel v + ch)) + ucast (src ! (srcPixel v + 3 + ch))"
      unfolding row_sum_def dm I(4) by (simp add: add.assoc)
    have "acc' ! (3 * q + ch) = accs v ! (3 * q + ch) + row_sum src L W q ch k"
      unfolding nth' [of "3 * q + ch"] rs using idx by (simp add: add.assoc)
    also have "accs v ! (3 * q + ch) = partial_sum src L W q ch k"
      using content [OF q ch] contributed_current [OF jW, of R k] True by simp
    finally show ?thesis using partial_sum_step [OF k2] True by simp
  next
    case False
    have "\<not> (3 * m \<le> 3 * q + ch \<and> 3 * q + ch < 3 * m + 3)" if "q \<noteq> m" for m :: nat
      using that ch by presburger
    from this [OF False] have "\<not> (accum v \<le> 3 * q + ch \<and> 3 * q + ch < accum v + 3)"
      unfolding a_eq .
    then have "acc' ! (3 * q + ch) = accs v ! (3 * q + ch)"
      unfolding nth' [of "3 * q + ch"] by (simp only: if_False)
    with content [OF q ch] False show ?thesis by simp
  qed
  have prog: "ds_progress W v < 2 * W * H"
  proof -
    have "(2 * R + k) * W + j < (2 * R + k) * W + W" using jW by simp
    also have "\<dots> = (2 * R + k + 1) * W" by (simp add: add_mult_distrib)
    also have "\<dots> \<le> (2 * H) * W" using RH k2 by (intro mult_le_mono1) linarith
    finally show ?thesis by (simp add: ds_progress_def defs mult.commute mult.left_commute)
  qed
  consider (col) "j + 1 < W" | (srcrow) "j + 1 = W" "k = 0" | (row) "j + 1 = W" "k = 1"
    using jW k2 by linarith
  then show ?thesis
  proof cases
    case col
    let ?v = "v\<lparr>srcPixel := srcPixel v + 6, accs := acc', accum := accum v + kBytesPerPixel,
                rowPixelsDone := rowPixelsDone v + 1\<rparr>"
    have step: "downscale_step s src v = Inr ?v"
      using col by (simp add: downscale_step_def run Let_def geom j_def [symmetric])
    have "ds_inv W H L src ?v"
      unfolding ds_inv_def using I RH col k2 len' content' contributed_next_col [OF col, of R k]
      by (simp add: defs [symmetric] kBytesPerPixel_def)
    moreover have "ds_progress W ?v = ds_progress W v + 1"
      by (simp add: ds_progress_def)
    ultimately show ?thesis using step prog by blast
  next
    case srcrow
    let ?v = "v\<lparr>srcPixel := (R * kDownscaleRatio + 1) * L, accs := acc', accum := accumRow v,
                rowPixelsDone := 0, srcRowsPerAccumRow := 1\<rparr>"
    have step: "downscale_step s src v = Inr ?v"
      unfolding downscale_step_def run using srcrow
      by (simp add: Let_def geom defs [symmetric] kDownscaleRatio_def)
    have "ds_inv W H L src ?v"
      unfolding ds_inv_def using I RH srcrow len' content' contributed_next_srcrow [OF srcrow(1), of R]
      by (simp add: defs [symmetric] kDownscaleRatio_def mult.commute)
    moreover have "ds_progress W ?v = ds_progress W v + 1"
      using srcrow by (simp add: ds_progress_def defs [symmetric] add_mult_distrib)
    ultimately show ?thesis using step prog by blast
  next
    case row
    let ?v = "v\<lparr>srcPixel := ((R + 1) * kDownscaleRatio + 0) * L, accs := acc', accum := (R + 1) * (3 * W),
                rowPixelsDone := 0, srcRowsPerAccumRow := 0, accumRowsDone := R + 1,
                accumRow := (R + 1) * (3 * W)\<rparr>"
    have step: "downscale_step s src v = Inr ?v"
      unfolding downscale_step_def run using row
      by (simp add: Let_def geom defs [symmetric] kDownscaleRatio_def)
    have "ds_inv W H L src ?v"
      unfolding ds_inv_def using I RH row len' content' contributed_next_row [OF row(1), of R]
      by (simp add: defs [symmetric] kDownscaleRatio_def mult.commute)
    moreover have "ds_progress W ?v = ds_progress W v + 1"
      using row by (simp add: ds_progress_def defs [symmetric] add_mult_distrib)
    ultimately show ?thesis using step prog by blast
  qed
qed

lemma downscale_body_inv:
  assumes geom: "imageWidth s = W" "destLineSize s = 3 * W" "srcLineSize s = L"
    and fits: "6 * W \<le> L" "2 * H * L \<le> length src"
    and ok: "ds_ok W H L src r" and cond: "downscale_cond r"
  shows "ds_ok W H L src (downscale_body s src r) \<and>
     ds_left W H (downscale_body s src r) < ds_left W H r"
proof -
  from ok obtain v where r: "r = Inr v" and inv: "ds_inv W H L src v"
    by (cases r) (simp_all add: ds_ok_def)
  from cond r have c: "accum v < length (accs v)" by (simp add: downscale_cond_def)
  from downscale_step_inv [OF inv c geom fits]
  obtain v' where "downscale_step s src v = Inr v'" "ds_inv W H L src v'"
    "ds_progress W v' = ds_progress W v + 1" "ds_progress W v < 2 * W * H"
    by blast
  then show ?thesis
    by (simp add: r downscale_body_def ds_ok_def ds_left_def)
qed

lemma downscale_loop_result:
  assumes geom: "imageWidth s = W" "destLineSize s = 3 * W" "srcLineSize s = L"
    and fits: "6 * W \<le> L" "2 * H * L \<le> length src"
  shows "\<exists>v. while_option downscale_cond (downscale_body s src)
        (Inr \<lparr>accum = 0, accumRow = 0, srcPixel = 0, accumRowsDone = 0, rowPixelsDone = 0,
              srcRowsPerAccumRow = 0, accs = replicate (3 * (W * H)) 0\<rparr>) = Some (Inr v) \<and>
     length (accs v) = 3 * (W * H) \<and>
     (\<forall>q ch. q < W * H \<and> ch < 3 \<longrightarrow> accs v ! (3 * q + ch) = partial_sum src L W q ch 2)"
proof -
  let ?init = "Inr \<lparr>accum = 0, accumRow = 0, srcPixel = 0, accumRowsDone = 0, rowPixelsDone = 0,
              srcRowsPerAccumRow = 0, accs = replicate (3 * (W * H)) 0\<rparr> :: fault + downscale_vars"
  have init: "ds_ok W H L src ?init"
    by (simp add: ds_ok_def ds_inv_def contributed_def partial_sum_def)
  have step: "ds_ok W H L src (downscale_body s src r) \<and>
      ds_left W H (downscale_body s src r) < ds_left W H r"
    if "ds_ok W H L src r" "downscale_cond r" for r
    using downscale_body_inv [OF geom fits that] .
  from measure_while_option_Some [of "ds_ok W H L src" downscale_cond "downscale_body s src" "ds_left W H", OF step init]
  obtain t where t: "while_option downscale_cond (downscale_body s src) ?init = Some t"
    by blast
  have ok: "ds_ok W H L src t"
    by (rule while_option_rule [where P = "ds_ok W H L src", OF _ t init]) (simp add: step)
  have stop: "\<not> downscale_cond t" using while_option_stop [OF t] .
  from ok obtain v where v: "t = Inr v" and inv: "ds_inv W H L src v"
    by (cases t) (simp_all add: ds_ok_def)
  from stop v have fin: "length (accs v) \<le> accum v" by (simp add: downscale_cond_def)
  from inv have len: "length (accs v) = 3 * (W * H)" by (simp add: ds_inv_def)
  have full: "contributed W (accumRowsDone v) (srcRowsPerAccumRow v) (rowPixelsDone v) q = 2"
    if q: "q < W * H" for q
  proof -
    from q have W0: "0 < W" by (cases W) simp_all
    have "\<not> accumRowsDone v < H"
    proof
      assume lt: "accumRowsDone v < H"
      with inv W0 have j: "rowPixelsDone v < W"
        and a: "accum v = accumRowsDone v * (3 * W) + 3 * rowPixelsDone v"
        by (simp_all add: ds_inv_def)
      have "(accumRowsDone v + 1) * W \<le> H * W" using lt by (intro mult_le_mono1) simp
      then have "accumRowsDone v * W + W \<le> W * H" by (simp add: add_mult_distrib mult.commute)
      with j have "accumRowsDone v * W + rowPixelsDone v < W * H" by linarith
      then have "accum v < 3 * (W * H)" unfolding a by (simp add: algebra_simps)
      with fin len show False by simp
    qed
    with inv have "accumRowsDone v = H" by (simp add: ds_inv_def)
    with q show ?thesis by (simp add: contributed_def mult.commute)
  qed
  have "accs v ! (3 * q + ch) = partial_sum src L W q ch 2" if "q < W * H" "ch < 3" for q ch
    using inv that full [OF that(1)] by (simp add: ds_inv_def)
  with t v len show ?thesis by blast
qed

lemma unat_ucast_byte: "unat (ucast (b :: uint8) :: ushort) = unat b"
  by (simp add: unsigned_ucast_eq take_bit_nat_eq_self_iff order_less_trans [OF unsigned_less])

lemma unat_block_sum:
  "unat ((ucast (a :: uint8) :: ushort) + ucast (b :: uint8) + (ucast (c :: uint8) + ucast (d :: uint8)))
     = unat a + unat b + unat c + unat d"
proof -
  have bd: "unat a < 256" "unat b < 256" "unat c < 256" "unat d < 256"
    using unsigned_less [of a] unsigned_less [of b] unsigned_less [of c] unsigned_less [of d]
    by simp_all
  have 1: "unat ((ucast a :: ushort) + ucast b) = unat a + unat b"
    using bd by (subst unat_add_lem [THEN iffD1]) (simp_all add: unat_ucast_byte)
  have 2: "unat ((ucast c :: ushort) + ucast d) = unat c + unat d"
    using bd by (subst unat_add_lem [THEN iffD1]) (simp_all add: unat_ucast_byte)
  show ?thesis
    using bd by (subst unat_add_lem [THEN iffD1]) (simp_all add: 1 2)
qed

lemma row_sum_sample:
  "row_sum (getPixels f) (getWidth f * 3) W q ch k =
     ucast (getPixels f ! (((2 * (q div W) + k) * getWidth f + 2 * (q mod W)) * kBytesPerPixel + ch))
     + ucast (getPixels f ! (((2 * (q div W) + k) * getWidth f + (2 * (q mod W) + 1)) * kBytesPerPixel + ch))"
  by (simp add: row_sum_def kBytesPerPixel_def algebra_simps)

lemma partial_sum_full:
  "unat (partial_sum (getPixels f) (getWidth f * 3) W q ch 2) div 4
     = block_mean f (q mod W) (q div W) ch"
proof -
  have "partial_sum (getPixels f) (getWidth f * 3) W q ch 2
      = row_sum (getPixels f) (getWidth f * 3) W q ch 0 + row_sum (getPixels f) (getWidth f * 3) W q ch 1"
    by (simp add: partial_sum_def)
  then show ?thesis
    by (simp only: row_sum_sample unat_block_sum block_mean_def sample_def add_0_right)
qed

lemma frame_fits_bounds:
  assumes "frame_fits s frame"
  shows "6 * imageWidth s \<le> srcLineSize s"
    and "2 * imageHeight s * srcLineSize s \<le> length (getPixels frame)"
    and "srcLineSize s = getWidth frame * 3"
    and "imageWidth s = getWidth frame div 2" and "imageHeight s = getHeight frame div 2"
proof -
  from assms have ff: "getBytesPerPixel frame = 3"
      "length (getPixels frame) = getWidth frame * getHeight frame * 3"
      "srcLineSize s = getWidth frame * 3" "imageWidth s = getWidth frame div 2"
      "imageHeight s = getHeight frame div 2"
    by (simp_all add: frame_fits_def kBytesPerPixel_def kDownscaleRatio_def getTotalSize_def)
  show "6 * imageWidth s \<le> srcLineSize s" using ff(3,4) by simp
  have "2 * (getHeight frame div 2) \<le> getHeight frame" by simp
  then have "(2 * (getHeight frame div 2)) * (getWidth frame * 3) \<le> getHeight frame * (getWidth frame * 3)"
    by (rule mult_le_mono1)
  then show "2 * imageHeight s * srcLineSize s \<le> length (getPixels frame)"
    using ff by (simp add: mult.commute mult.left_commute)
  show "srcLineSize s = getWidth frame * 3" "imageWidth s = getWidth frame div 2"
    "imageHeight s = getHeight frame div 2" by (fact ff)+
qed

lemma downscale_returns:
  assumes ok: "state_ok s" and fits: "frame_fits s frame" and down: "frame_dims s down"
  shows "\<exists>A. length A = imageSize s \<and>
     downscale frame down s = Returns (down\<lparr>getPixels := downscaled frame\<rparr>, s\<lparr>downscaleAccumulators := A\<rparr>)"
proof -
  define W where "W = imageWidth s"
  define H where "H = imageHeight s"
  note fb = frame_fits_bounds [OF fits]
  from ok have sz: "imageSize s = 3 * (W * H)" "destLineSize s = 3 * W"
      "length (downscaleAccumulators s) = 3 * (W * H)"
    by (simp_all add: state_ok_def kBytesPerPixel_def W_def H_def)
  from down sz have dl: "length (getPixels down) = 3 * (W * H)" by (simp add: frame_dims_def)
  from downscale_loop_result [of s W "getWidth frame * 3" H "getPixels frame"] fb sz
  obtain v where loop: "while_option downscale_cond (downscale_body s (getPixels frame))
        (Inr \<lparr>accum = 0, accumRow = 0, srcPixel = 0, accumRowsDone = 0, rowPixelsDone = 0,
              srcRowsPerAccumRow = 0, accs = replicate (3 * (W * H)) 0\<rparr>) = Some (Inr v)"
    and len: "length (accs v) = 3 * (W * H)"
    and full: "\<And>q ch. q < W * H \<Longrightarrow> ch < 3 \<Longrightarrow>
        accs v ! (3 * q + ch) = partial_sum (getPixels frame) (getWidth frame * 3) W q ch 2"
    unfolding W_def H_def by auto
  have Wf: "W = getWidth frame div 2" "H = getHeight frame div 2"
    using fb by (simp_all add: W_def H_def)
  have px: "map (\<lambda>a. word_of_nat (unat a div kDownscaleSquare)) (accs v) = downscaled frame"
  proof (rule nth_equalityI)
    show "length (map (\<lambda>a. word_of_nat (unat a div kDownscaleSquare) :: uint8) (accs v))
        = length (downscaled frame)"
      by (simp add: len downscaled_def Wf [symmetric] mult.commute)
  next
    fix i assume "i < length (map (\<lambda>a. word_of_nat (unat a div kDownscaleSquare) :: uint8) (accs v))"
    then have i: "i < 3 * (W * H)" by (simp add: len)
    then have q: "i div 3 < W * H" and ch: "i mod 3 < 3" by simp_all
    have split: "3 * (i div 3) + i mod 3 = i" by simp
    have "accs v ! i = partial_sum (getPixels frame) (getWidth frame * 3) W (i div 3) (i mod 3) 2"
      using full [OF q ch] unfolding split .
    then have "unat (accs v ! i) div 4 = block_mean frame ((i div 3) mod W) ((i div 3) div W) (i mod 3)"
      by (simp only: partial_sum_full)
    moreover have "i < W * H * 3" using i by (simp add: mult.commute)
    ultimately show "map (\<lambda>a. word_of_nat (unat a div kDownscaleSquare)) (accs v) ! i = downscaled frame ! i"
      using i by (simp add: len downscaled_def Wf [symmetric] kDownscaleSquare_def kDownscaleRatio_def)
  qed
  have "downscale frame down s = Returns (down\<lparr>getPixels := downscaled frame\<rparr>,
      s\<lparr>downscaleAccumulators := accs v\<rparr>)"
    by (simp add: downscale_def Let_def sz loop len dl px)
  with len sz show ?thesis by auto
qed

lemma block_mean_byte: "block_mean f c r ch < 256"
proof -
  have "sample f x y ch < 256" for x y
    using unsigned_less [of "getPixels f ! ((y * getWidth f + x) * kBytesPerPixel + ch)"]
    by (simp add: sample_def)
  from this [of "2 * c" "2 * r"] this [of "2 * c + 1" "2 * r"] this [of "2 * c" "2 * r + 1"]
    this [of "2 * c + 1" "2 * r + 1"]
  show ?thesis unfolding block_mean_def by linarith
qed

lemma downscaled_index:
  fixes r c ch W H :: nat
  assumes "r < H" "c < W" "ch < 3"
  shows "(r * W + c) * 3 + ch < W * H * 3" "((r * W + c) * 3 + ch) div 3 = r * W + c"
    "((r * W + c) * 3 + ch) mod 3 = ch" "(r * W + c) mod W = c" "(r * W + c) div W = r"
proof -
  have "(r + 1) * W \<le> H * W" using assms(1) by (intro mult_le_mono1) simp
  then have "r * W + W \<le> W * H" by (simp add: add_mult_distrib mult.commute)
  with assms(2) have "r * W + c < W * H" by linarith
  moreover have "m * 3 + ch < n * 3" if "m < n" for m n :: nat
    using that assms(3) by linarith
  ultimately show "(r * W + c) * 3 + ch < W * H * 3" by blast
  have dm: "(m * 3 + ch) div 3 = m" "(m * 3 + ch) mod 3 = ch" for m :: nat
    using assms(3) by simp_all
  show "((r * W + c) * 3 + ch) div 3 = r * W + c" "((r * W + c) * 3 + ch) mod 3 = ch"
    by (fact dm)+
  show "(r * W + c) mod W = c" "(r * W + c) div W = r" using assms(2) by simp_all
qed

lemma downscaled_nth:
  assumes "r < getHeight f div 2" "c < getWidth f div 2" "ch < 3"
  shows "unat (downscaled f ! ((r * (getWidth f div 2) + c) * 3 + ch)) = block_mean f c r ch"
proof -
  note ix = downscaled_index [OF assms]
  have "downscaled f ! k = word_of_nat (block_mean f ((k div 3) mod (getWidth f div 2))
      ((k div 3) div (getWidth f div 2)) (k mod 3))"
    if "k < (getWidth f div 2) * (getHeight f div 2) * 3" for k
    using that by (simp add: downscaled_def)
  from this [OF ix(1)]
  have "downscaled f ! ((r * (getWidth f div 2) + c) * 3 + ch) = word_of_nat (block_mean f c r ch)"
    by (simp only: ix)
  then show ?thesis
    using block_mean_byte [of f c r ch] by (simp add: unat_of_nat)
qed

lemma downscaled_cong:
  assumes w: "getWidth g = getWidth f" and h: "getHeight g = getHeight f"
    and eq: "\<And>x y ch. x < 2 * (getWidth f div 2) \<Longrightarrow> y < 2 * (getHeight f div 2) \<Longrightarrow> ch < 3 \<Longrightarrow>
      sample g x y ch = sample f x y ch"
  shows "downscaled g = downscaled f"
proof -
  define W where "W = getWidth f div 2"
  define H where "H = getHeight f div 2"
  have "block_mean g ((i div 3) mod W) ((i div 3) div W) (i mod 3)
      = block_mean f ((i div 3) mod W) ((i div 3) div W) (i mod 3)"
    if i: "i < W * H * 3" for i
  proof -
    from i have q: "i div 3 < W * H" by simp
    then have W0: "0 < W" by (cases W) simp_all
    then have c: "(i div 3) mod W < W" by simp
    have r: "(i div 3) div W < H" using q W0 by (simp add: less_mult_imp_div_less mult.commute)
    have ch: "i mod 3 < 3" by simp
    from c r have b: "2 * ((i div 3) mod W) < 2 * W" "2 * ((i div 3) mod W) + 1 < 2 * W"
      "2 * ((i div 3) div W) < 2 * H" "2 * ((i div 3) div W) + 1 < 2 * H" by simp_all
    show ?thesis
      unfolding block_mean_def
      using eq [OF b(1) [unfolded W_def] b(3) [unfolded H_def] ch]
        eq [OF b(2) [unfolded W_def] b(3) [unfolded H_def] ch]
        eq [OF b(1) [unfolded W_def] b(4) [unfolded H_def] ch]
        eq [OF b(2) [unfolded W_def] b(4) [unfolded H_def] ch]
      by (simp add: W_def)
  qed
  then show ?thesis
    unfolding downscaled_def w h W_def [symmetric] H_def [symmetric] by simp
qed

text \<open>
  Claim C5. For an object with the constructor's sizes and a frame of its source geometry,
  \<open>downscale\<close> returns, and the pixels it writes are those of \<open>downscaled\<close>: the frame is cut
  into non-overlapping 2x2 blocks and each output channel is the sum of the block's four
  samples divided by 4, rounded down. The output has \<open>width div 2\<close> by \<open>height div 2\<close>
  pixels, and a frame that differs only in a trailing odd row or column gives the same
  output.
\<close>

theorem downscale_block_average:
  assumes "state_ok s" and "frame_fits s frame" and "frame_dims s down"
  shows "(\<exists>s'. downscale frame down s = Returns (down\<lparr>getPixels := downscaled frame\<rparr>, s')) \<and>
    getWidth down = getWidth frame div 2 \<and> getHeight down = getHeight frame div 2 \<and>
    length (downscaled frame) = (getWidth frame div 2) * (getHeight frame div 2) * 3 \<and>
    (\<forall>r c ch. r < getHeight frame div 2 \<and> c < getWidth frame div 2 \<and> ch < 3 \<longrightarrow>
       unat (downscaled frame ! ((r * (getWidth frame div 2) + c) * 3 + ch)) = block_mean frame c r ch) \<and>
    (\<forall>other. getWidth other = getWidth frame \<and> getHeight other = getHeight frame \<and>
       (\<forall>x y ch. x < 2 * (getWidth frame div 2) \<and> y < 2 * (getHeight frame div 2) \<and> ch < 3 \<longrightarrow>
          sample other x y ch = sample frame x y ch)
       \<longrightarrow> downscaled other = downscaled frame)"
proof (intro conjI allI impI)
  show "\<exists>s'. downscale frame down s = Returns (down\<lparr>getPixels := downscaled frame\<rparr>, s')"
    using downscale_returns [OF assms] by blast
  show "getWidth down = getWidth frame div 2" "getHeight down = getHeight frame div 2"
    using assms(3) frame_fits_bounds [OF assms(2)] by (simp_all add: frame_dims_def)
  show "length (downscaled frame) = (getWidth frame div 2) * (getHeight frame div 2) * 3"
    by (simp add: downscaled_def)
next
  fix r c ch :: nat
  assume "r < getHeight frame div 2 \<and> c < getWidth frame div 2 \<and> ch < 3"
  then show "unat (downscaled frame ! ((r * (getWidth frame div 2) + c) * 3 + ch)) = block_mean frame c r ch"
    using downscaled_nth by blast
next
  fix other
  assume "getWidth other = getWidth frame \<and> getHeight other = getHeight frame \<and>
       (\<forall>x y ch. x < 2 * (getWidth frame div 2) \<and> y < 2 * (getHeight frame div 2) \<and> ch < 3 \<longrightarrow>
          sample other x y ch = sample frame x y ch)"
  then show "downscaled other = downscaled frame"
    by (intro downscaled_cong) blast+
qed

lemma constructed_state_ok: "state_ok (constructed mem now fw fh rate b cap)"
  by (simp add: state_ok_def frame_dims_def constructed_def reset_def Let_def new_VideoFrame_def)

lemma constructed_first: "firstFrame (constructed mem now fw fh rate b cap)"
  by (simp add: constructed_def reset_def Let_def)

lemma constructed_frame_fits:
  assumes "getWidth frame = fw" "getHeight frame = fh" "getBytesPerPixel frame = kBytesPerPixel"
    "length (getPixels frame) = getTotalSize frame"
  shows "frame_fits (constructed mem now fw fh rate b cap) frame"
  using assms by (simp add: frame_fits_def constructed_def reset_def Let_def)

lemma constructed_downscaleBuff:
  "frame_dims (constructed mem now fw fh rate b cap) (downscaleBuff (constructed mem now fw fh rate b cap))"
  using constructed_state_ok [of mem now fw fh rate b cap] by (simp add: state_ok_def)

lemma small_fits: "frame_fits (constructed mem now 3 2 rate b cap) small_frame"
  by (rule constructed_frame_fits) (simp_all add: small_frame_def kBytesPerPixel_def getTotalSize_def)

lemma small_down: "downscaled small_frame = [25, 35, 45]"
  by (simp add: downscaled_def small_frame_def block_mean_def sample_def kBytesPerPixel_def upt_3)

theorem downscale_block_average_witness:
  "(\<exists>s'. downscale small_frame (downscaleBuff (constructed (\<lambda>k i. 0) 0 3 2 30 False 30))
       (constructed (\<lambda>k i. 0) 0 3 2 30 False 30)
     = Returns ((downscaleBuff (constructed (\<lambda>k i. 0) 0 3 2 30 False 30))\<lparr>getPixels := [25, 35, 45]\<rparr>, s')) \<and>
   getWidth (downscaleBuff (constructed (\<lambda>k i. 0) 0 3 2 30 False 30)) = 1 \<and>
   getHeight (downscaleBuff (constructed (\<lambda>k i. 0) 0 3 2 30 False 30)) = 1 \<and>
   block_mean small_frame 0 0 2 = 45"
proof -
  let ?s = "constructed (\<lambda>k i. 0) 0 3 2 30 False 30"
  note t = downscale_block_average [OF constructed_state_ok small_fits constructed_downscaleBuff, of "\<lambda>k i. 0" 0 30 False 30]
  have 1: "\<exists>s'. downscale small_frame (downscaleBuff ?s) ?s
     = Returns ((downscaleBuff ?s)\<lparr>getPixels := [25, 35, 45]\<rparr>, s')"
    using t [THEN conjunct1] unfolding small_down .
  have 2: "getWidth (downscaleBuff ?s) = 1"
    using t [THEN conjunct2, THEN conjunct1] by (simp add: small_frame_def)
  have 3: "getHeight (downscaleBuff ?s) = 1"
    using t [THEN conjunct2, THEN conjunct2, THEN conjunct1] by (simp add: small_frame_def)
  have "unat (downscaled small_frame ! ((0 * (getWidth small_frame div 2) + 0) * 3 + 2))
      = block_mean small_frame 0 0 2"
    by (rule t [THEN conjunct2, THEN conjunct2, THEN conjunct2, THEN conjunct2, THEN conjunct1,
          rule_format]) (simp add: small_frame_def)
  then have 4: "block_mean small_frame 0 0 2 = 45"
    unfolding small_down by (simp add: small_frame_def)
  from 1 2 3 4 show ?thesis by (intro conjI)
qed

subsection \<open>The first frame\<close>

lemma benchmark_tick_fields:
  "\<exists>a b c. benchmark_tick tm s = s\<lparr>detectorFPS := a, framesCounted := b, lastMark := c\<rparr>"
proof (cases "benchmarking s")
  case False
  then have "benchmark_tick tm s = s\<lparr>detectorFPS := detectorFPS s, framesCounted := framesCounted s,
      lastMark := lastMark s\<rparr>"
    by (simp add: benchmark_tick_def)
  then show ?thesis by blast
next
  case True
  show ?thesis
  proof (cases "clock_first tm > lastMark s + CLOCKS_PER_SEC tm")
    case True
    with \<open>benchmarking s\<close>
    have "benchmark_tick tm s = s\<lparr>detectorFPS := framesCounted s, framesCounted := 1,
      lastMark := clock_second tm\<rparr>"
      by (simp add: benchmark_tick_def)
    then show ?thesis by blast
  next
    case False
    with \<open>benchmarking s\<close>
    have "benchmark_tick tm s = s\<lparr>detectorFPS := detectorFPS s, framesCounted := framesCounted s + 1,
      lastMark := lastMark s\<rparr>"
      by (simp add: benchmark_tick_def)
    then show ?thesis by blast
  qed
qed

lemma state_ok_bench [simp]:
  "state_ok (s\<lparr>detectorFPS := a, framesCounted := b, lastMark := c\<rparr>) = state_ok s"
  by (simp add: state_ok_def frame_dims_def)

lemma frame_fits_bench [simp]:
  "frame_fits (s\<lparr>detectorFPS := a, framesCounted := b, lastMark := c\<rparr>) frame = frame_fits s frame"
  by (simp add: frame_fits_def)

lemma memcpy_fold:
  assumes "n \<le> length dst" "n \<le> length src"
  shows "memcpy dst 0 src 0 n = take n src @ drop n dst"
  using assms
proof (induction n)
  case 0
  then show ?case by (simp add: memcpy_def)
next
  case (Suc n)
  then have IH: "memcpy dst 0 src 0 n = take n src @ drop n dst" by simp
  have "memcpy dst 0 src 0 (Suc n) = (memcpy dst 0 src 0 n)[n := src ! n]"
    by (simp add: memcpy_def)
  also have "\<dots> = take n src @ (drop n dst)[0 := src ! n]"
    using Suc.prems by (simp add: IH list_update_append)
  also have "(drop n dst)[0 := src ! n] = src ! n # drop (Suc n) dst"
    using Suc.prems by (simp flip: Cons_nth_drop_Suc [of n dst])
  also have "take n src @ src ! n # drop (Suc n) dst = take (Suc n) src @ drop (Suc n) dst"
    using Suc.prems by (simp add: take_Suc_conv_app_nth)
  finally show ?case .
qed

lemma memcpy_whole:
  assumes "length dst = n" "length src = n"
  shows "memcpy dst 0 src 0 n = src"
  using memcpy_fold [of n dst src] assms by simp

lemma wipe_fold_length [simp]:
  "length (fold (\<lambda>i px. px[i * k := v]) is px) = length px"
  by (induction "is" arbitrary: px) simp_all

lemma wipe_fold_nth:
  assumes "i < n" "i * k < length px" "0 < k"
  shows "fold (\<lambda>i px. px[i * k := (0 :: uint8)]) [0..<n] px ! (i * k) = 0"
  using assms
proof (induction n)
  case 0
  then show ?case by simp
next
  case (Suc n)
  show ?case
  proof (cases "i = n")
    case True
    with Suc.prems show ?thesis by simp
  next
    case False
    with Suc.prems have "i < n" by simp
    from Suc.IH [OF this Suc.prems(2,3)] False Suc.prems(3) show ?thesis
      by (simp add: nth_list_update)
  qed
qed

lemma stride_count_pixels [simp]:
  "stride_count (n * kBytesPerPixel) kBytesPerPixel = n" "stride_count (n * 3) 3 = n"
  by (simp_all add: stride_count_def kBytesPerPixel_def)

lemma generateMotionMask_first:
  assumes ok: "state_ok s" and first: "firstFrame s" and fits: "frame_fits s frame"
  shows "\<exists>s'. generateMotionMask tm frame s = Returns s' \<and>
     (\<forall>i < imageArea s. getPixels (motionMask s') ! (i * kBytesPerPixel) = 0) \<and>
     getPixels (currentImage s') = downscaled frame \<and>
     getPixels (refImage s') = downscaled frame \<and>
     getPixels (downscaleBuff s') = downscaled frame \<and>
     \<not> firstFrame s' \<and> state_ok s' \<and> frame_fits s' frame \<and>
     motionThreshold s' = motionThreshold s \<and> stableCap s' = stableCap s \<and>
     erosionLevel s' = erosionLevel s \<and> imageArea s' = imageArea s \<and>
     currentStableTimes s' = currentStableTimes s \<and> stableRecords s' = stableRecords s"
proof -
  obtain a b c where bt: "benchmark_tick tm s = s\<lparr>detectorFPS := a, framesCounted := b, lastMark := c\<rparr>"
    using benchmark_tick_fields by blast
  let ?sb = "s\<lparr>detectorFPS := a, framesCounted := b, lastMark := c\<rparr>"
  have okb: "state_ok ?sb" and fitsb: "frame_fits ?sb frame" using ok fits by simp_all
  have dimb: "frame_dims ?sb (downscaleBuff ?sb)" using okb by (simp add: state_ok_def)
  from downscale_returns [OF okb fitsb dimb]
  obtain A where A: "length A = imageSize s"
    and ds: "downscale frame (downscaleBuff ?sb) ?sb
        = Returns ((downscaleBuff ?sb)\<lparr>getPixels := downscaled frame\<rparr>, ?sb\<lparr>downscaleAccumulators := A\<rparr>)"
    by auto
  from ok have sz: "imageArea s = imageWidth s * imageHeight s" "imageSize s = imageArea s * kBytesPerPixel"
    and dims: "frame_dims s (motionMask s)" "frame_dims s (currentImage s)" "frame_dims s (refImage s)"
      "frame_dims s (downscaleBuff s)" "frame_dims s (erodedMask s)"
    by (simp_all add: state_ok_def)
  have dl: "length (downscaled frame) = imageSize s"
    using frame_fits_bounds [OF fits] sz by (simp add: downscaled_def kBytesPerPixel_def)
  let ?s1 = "?sb\<lparr>downscaleAccumulators := A,
      downscaleBuff := (downscaleBuff s)\<lparr>getPixels := downscaled frame\<rparr>\<rparr>"
  let ?s' = "?s1\<lparr>currentImage := (currentImage s)\<lparr>getPixels := downscaled frame\<rparr>,
      refImage := (refImage s)\<lparr>getPixels := downscaled frame\<rparr>,
      firstFrame := False,
      motionMask := wipe_motion_channel (motionMask s)\<rparr>"
  have cp: "memcpy (getPixels (currentImage s)) 0 (downscaled frame) 0 (imageSize s) = downscaled frame"
    "memcpy (getPixels (refImage s)) 0 (downscaled frame) 0 (imageSize s) = downscaled frame"
    using dims dl by (simp_all add: memcpy_whole frame_dims_def)
  have run: "generateMotionMask tm frame s = Returns ?s'"
    unfolding generateMotionMask_def bt ds using first
    by (simp add: Let_def store_downscaled_def first_frame_copy_def cp)
  have mm: "getWidth (motionMask s) = imageWidth s" "getHeight (motionMask s) = imageHeight s"
    "getBytesPerPixel (motionMask s) = kBytesPerPixel" "length (getPixels (motionMask s)) = imageSize s"
    using dims(1) by (simp_all add: frame_dims_def)
  have total: "getTotalSize (motionMask s) = imageArea s * kBytesPerPixel"
    using mm sz by (simp add: getTotalSize_def)
  have wiped: "getPixels (wipe_motion_channel (motionMask s)) ! (i * kBytesPerPixel) = 0"
    if "i < imageArea s" for i
  proof -
    have "i * kBytesPerPixel < length (getPixels (motionMask s))"
      using that mm(4) sz(2) by (simp add: kBytesPerPixel_def)
    then show ?thesis
      using that by (simp add: wipe_motion_channel_def mm(3) total wipe_fold_nth kBytesPerPixel_def)
  qed
  have okw: "frame_dims s (wipe_motion_channel (motionMask s))"
    using dims(1) by (simp add: frame_dims_def wipe_motion_channel_def)
  have ok': "state_ok ?s'"
    using ok okw dl A by (simp add: state_ok_def frame_dims_def)
  have fits': "frame_fits ?s' frame" using fits by (simp add: frame_fits_def)
  show ?thesis
    unfolding run using wiped ok' fits' by simp
qed

text \<open>
  Claim C2. A constructed object is in its first-frame state, and so is an object after
  \<open>reset()\<close>; both have buffers of the constructed geometry. In such a state, for every
  frame of that geometry, \<open>generateMotionMask\<close> returns, byte 0 of every pixel of the mask
  is 0, the tracked image and the reference image are the downscaled frame, and the
  first-frame flag is cleared.
\<close>

theorem first_frame_mask:
  "(\<forall>s0. new_MotionExtractor mem now (getWidth frame) (getHeight frame) rate b = Returns s0 \<longrightarrow>
      firstFrame s0 \<and> state_ok s0 \<and>
      (getBytesPerPixel frame = kBytesPerPixel \<and> length (getPixels frame) = getTotalSize frame
         \<longrightarrow> frame_fits s0 frame)) \<and>
   firstFrame (reset r) \<and> (state_ok r \<longrightarrow> state_ok (reset r)) \<and>
   frame_fits (reset r) frame = frame_fits r frame \<and>
   (state_ok s \<and> firstFrame s \<and> frame_fits s frame \<longrightarrow>
      (\<exists>s'. generateMotionMask tm frame s = Returns s' \<and>
         (\<forall>i<imageArea s. getPixels (motionMask s') ! (i * kBytesPerPixel) = 0) \<and>
         getPixels (currentImage s') = downscaled frame \<and>
         getPixels (refImage s') = downscaled frame \<and>
         \<not> firstFrame s'))"
proof -
  have a: "firstFrame s0 \<and> state_ok s0 \<and>
      (getBytesPerPixel frame = kBytesPerPixel \<and> length (getPixels frame) = getTotalSize frame
         \<longrightarrow> frame_fits s0 frame)"
    if "new_MotionExtractor mem now (getWidth frame) (getHeight frame) rate b = Returns s0" for s0
  proof -
    from that obtain cap where "s0 = constructed mem now (getWidth frame) (getHeight frame) rate b cap"
      by (auto simp: new_MotionExtractor_def split: option.splits)
    then show ?thesis
      using constructed_first constructed_state_ok constructed_frame_fits by simp
  qed
  have b: "firstFrame (reset r)" by (simp add: reset_def)
  have c: "state_ok r \<longrightarrow> state_ok (reset r)"
    by (simp add: state_ok_def frame_dims_def reset_def)
  have d: "frame_fits (reset r) frame = frame_fits r frame"
    by (simp add: frame_fits_def reset_def)
  have e: "\<exists>s'. generateMotionMask tm frame s = Returns s' \<and>
         (\<forall>i<imageArea s. getPixels (motionMask s') ! (i * kBytesPerPixel) = 0) \<and>
         getPixels (currentImage s') = downscaled frame \<and>
         getPixels (refImage s') = downscaled frame \<and>
         \<not> firstFrame s'"
    if "state_ok s" "firstFrame s" "frame_fits s frame"
    using generateMotionMask_first [OF that, of tm] by blast
  from a b c d e show ?thesis by blast
qed

theorem first_frame_mask_witness:
  "new_MotionExtractor (\<lambda>k i. 0) 0 (getWidth small_frame) (getHeight small_frame) 30 False
     = Returns (constructed (\<lambda>k i. 0) 0 3 2 30 False 30) \<and>
   getBytesPerPixel small_frame = kBytesPerPixel \<and>
   length (getPixels small_frame) = getTotalSize small_frame \<and>
   firstFrame (constructed (\<lambda>k i. 0) 0 3 2 30 False 30) \<and>
   state_ok (constructed (\<lambda>k i. 0) 0 3 2 30 False 30) \<and>
   frame_fits (constructed (\<lambda>k i. 0) 0 3 2 30 False 30) small_frame \<and>
   0 < imageArea (constructed (\<lambda>k i. 0) 0 3 2 30 False 30) \<and>
   (\<exists>s'. generateMotionMask tm0 small_frame (constructed (\<lambda>k i. 0) 0 3 2 30 False 30) = Returns s' \<and>
      getPixels (motionMask s') ! 0 = 0 \<and>
      getPixels (currentImage s') = [25, 35, 45] \<and>
      getPixels (refImage s') = [25, 35, 45] \<and>
      \<not> firstFrame s')"
proof -
  let ?c = "constructed (\<lambda>k i. 0) 0 3 2 30 False 30"
  note t = first_frame_mask [of "\<lambda>k i. 0" 0 small_frame 30 False ?c ?c tm0]
  have n: "new_MotionExtractor (\<lambda>k i. 0) 0 (getWidth small_frame) (getHeight small_frame) 30 False = Returns ?c"
    by (simp add: new_MotionExtractor_def small_frame_def double_to_uint_numeral)
  have f: "getBytesPerPixel small_frame = kBytesPerPixel" "length (getPixels small_frame) = getTotalSize small_frame"
    by (simp_all add: small_frame_def kBytesPerPixel_def getTotalSize_def)
  from t [THEN conjunct1, rule_format, OF n] f
  have p: "firstFrame ?c" "state_ok ?c" "frame_fits ?c small_frame" by simp_all
  have area: "imageArea ?c = 1"
    by (simp add: constructed_def reset_def Let_def kDownscaleRatio_def)
  from t [THEN conjunct2, THEN conjunct2, THEN conjunct2, THEN conjunct2] p
  obtain s' where r: "generateMotionMask tm0 small_frame ?c = Returns s'"
    and m: "\<forall>i<imageArea ?c. getPixels (motionMask s') ! (i * kBytesPerPixel) = 0"
    and im: "getPixels (currentImage s') = downscaled small_frame"
      "getPixels (refImage s') = downscaled small_frame" "\<not> firstFrame s'"
    by blast
  from m area have "getPixels (motionMask s') ! 0 = 0" by simp
  with n f p area r im show ?thesis by (simp add: small_down)
qed


subsection \<open>The two passes over the pixels\<close>

lemma pixelIsDifferent_drop:
  assumes "ofs \<le> length a" "ofs \<le> length b"
  shows "pixelIsDifferent thr (drop ofs a) (drop ofs b)
     \<longleftrightarrow> (\<exists>c<3. thr < \<bar>uint (a ! (ofs + c)) - uint (b ! (ofs + c))\<bar>)"
  using assms by (simp add: pixelIsDifferent_def pixelIsDifferent_from_iff kBytesPerPixel_def)

lemma memcpy3:
  "memcpy dst ofs src ofs kBytesPerPixel
     = dst[ofs := src ! ofs, ofs + 1 := src ! (ofs + 1), ofs + 2 := src ! (ofs + 2)]"
  by (simp add: memcpy_def kBytesPerPixel_def upt_3 del: upt_Suc)

lemma memcpy3_nth:
  assumes "ofs + 2 < length dst"
  shows "memcpy dst ofs src ofs kBytesPerPixel ! k = (if ofs \<le> k \<and> k < ofs + 3 then src ! k else dst ! k)"
proof -
  consider "k = ofs" | "k = ofs + 1" | "k = ofs + 2" | "k < ofs" | "ofs + 3 \<le> k" by linarith
  then show ?thesis using assms by cases (simp_all add: memcpy3 nth_list_update)
qed

lemma memcpy3_length [simp]: "length (memcpy dst ofs src ofs kBytesPerPixel) = length dst"
  by (simp add: memcpy3)

lemma nudge3:
  "nudge cip tip ofs =
     (let c1 = cip[ofs := cip ! ofs + word_of_int (Math_sign (uint (tip ! ofs) - uint (cip ! ofs)))];
          c2 = c1[ofs + 1 := c1 ! (ofs + 1) + word_of_int (Math_sign (uint (tip ! (ofs + 1)) - uint (c1 ! (ofs + 1))))]
      in c2[ofs + 2 := c2 ! (ofs + 2) + word_of_int (Math_sign (uint (tip ! (ofs + 2)) - uint (c2 ! (ofs + 2))))])"
  by (simp add: nudge_def kBytesPerPixel_def upt_3 Let_def del: upt_Suc)

lemma nudge_length [simp]: "length (nudge cip tip ofs) = length cip"
  by (simp add: nudge3 Let_def)

lemma nudge_nth:
  assumes "ofs + 2 < length cip"
  shows "nudge cip tip ofs ! k =
     (if ofs \<le> k \<and> k < ofs + 3
      then cip ! k + word_of_int (Math_sign (uint (tip ! k) - uint (cip ! k)))
      else cip ! k)"
proof -
  consider "k = ofs" | "k = ofs + 1" | "k = ofs + 2" | "k < ofs" | "ofs + 3 \<le> k" by linarith
  then show ?thesis using assms by cases (simp_all add: nudge3 Let_def nth_list_update)
qed

lemma differs_cong:
  assumes "\<And>c. c < 3 \<Longrightarrow> a ! (3 * i + c) = a' ! (3 * i + c)"
    and "\<And>c. c < 3 \<Longrightarrow> b ! (3 * i + c) = b' ! (3 * i + c)"
  shows "differs thr a b i = differs thr a' b' i"
  unfolding differs_def using assms by auto

lemma pixel_divmod [simp]:
  "Suc (3 * n) div 3 = n" "Suc (3 * n) mod 3 = 1"
  "Suc (Suc (3 * n)) div 3 = n" "Suc (Suc (3 * n)) mod 3 = 2"
  by presburger+

lemma pixel_index:
  fixes k n :: nat
  assumes "3 * n \<le> k" "k < 3 * n + 3"
  shows "k div 3 = n" "\<exists>c<3. k = 3 * n + c"
proof -
  show "k div 3 = n" using assms by linarith
  have "k = 3 * n + (k - 3 * n)" "k - 3 * n < 3" using assms by linarith+
  then show "\<exists>c<3. k = 3 * n + c" by blast
qed

lemma track_pixel_step:
  assumes len: "length C = 3 * m" "length tip = 3 * m" and n: "n < m"
  shows "track_pixel thr tip n (C, Tm) =
     (map (\<lambda>k. if 3 * n \<le> k \<and> k < 3 * n + 3 then tracked_byte thr tip C k else C ! k) [0..<3 * m],
      Tm[n := tracked_time thr tip C Tm n])"
proof -
  have o: "n * kBytesPerPixel = 3 * n" by (simp add: kBytesPerPixel_def)
  have b: "3 * n + 2 < 3 * m" using n by linarith
  have d: "pixelIsDifferent thr (drop (3 * n) tip) (drop (3 * n) C) = differs thr tip C n"
    using b len by (simp add: pixelIsDifferent_drop differs_def)
  show ?thesis
  proof (cases "differs thr tip C n")
    case True
    have "memcpy C (3 * n) tip (3 * n) kBytesPerPixel
        = map (\<lambda>k. if 3 * n \<le> k \<and> k < 3 * n + 3 then tracked_byte thr tip C k else C ! k) [0..<3 * m]"
    proof (rule nth_equalityI)
      show "length (memcpy C (3 * n) tip (3 * n) kBytesPerPixel)
          = length (map (\<lambda>k. if 3 * n \<le> k \<and> k < 3 * n + 3 then tracked_byte thr tip C k else C ! k) [0..<3 * m])"
        by (simp add: len)
    next
      fix k assume "k < length (memcpy C (3 * n) tip (3 * n) kBytesPerPixel)"
      then have k: "k < 3 * m" by (simp add: len)
      show "memcpy C (3 * n) tip (3 * n) kBytesPerPixel ! k
          = map (\<lambda>k. if 3 * n \<le> k \<and> k < 3 * n + 3 then tracked_byte thr tip C k else C ! k) [0..<3 * m] ! k"
        using k b len True pixel_index(1) [of n k]
        by (simp add: memcpy3_nth tracked_byte_def)
    qed
    with True show ?thesis
      by (simp add: track_pixel_def Let_def o d tracked_time_def)
  next
    case False
    have "nudge C tip (3 * n)
        = map (\<lambda>k. if 3 * n \<le> k \<and> k < 3 * n + 3 then tracked_byte thr tip C k else C ! k) [0..<3 * m]"
    proof (rule nth_equalityI)
      show "length (nudge C tip (3 * n))
          = length (map (\<lambda>k. if 3 * n \<le> k \<and> k < 3 * n + 3 then tracked_byte thr tip C k else C ! k) [0..<3 * m])"
        by (simp add: len)
    next
      fix k assume "k < length (nudge C tip (3 * n))"
      then have k: "k < 3 * m" by (simp add: len)
      show "nudge C tip (3 * n) ! k
          = map (\<lambda>k. if 3 * n \<le> k \<and> k < 3 * n + 3 then tracked_byte thr tip C k else C ! k) [0..<3 * m] ! k"
        using k b len False pixel_index(1) [of n k]
        by (simp add: nudge_nth tracked_byte_def)
    qed
    with False show ?thesis
      by (simp add: track_pixel_def Let_def o d tracked_time_def)
  qed
qed

lemma track_fold:
  assumes len: "length tip = 3 * m" "length cip = 3 * m" "length timers = m" and n: "n \<le> m"
  shows "fold (track_pixel thr tip) [0..<n] (cip, timers) =
     (map (\<lambda>k. if k < 3 * n then tracked_byte thr tip cip k else cip ! k) [0..<3 * m],
      map (\<lambda>i. if i < n then tracked_time thr tip cip timers i else timers ! i) [0..<m])"
  using n
proof (induction n)
  case 0
  show ?case using len by (simp add: map_nth [symmetric] del: map_nth) (metis map_nth)
next
  case (Suc n)
  define C where "C = map (\<lambda>k. if k < 3 * n then tracked_byte thr tip cip k else cip ! k) [0..<3 * m]"
  define T where "T = map (\<lambda>i. if i < n then tracked_time thr tip cip timers i else timers ! i) [0..<m]"
  from Suc have IH: "fold (track_pixel thr tip) [0..<n] (cip, timers) = (C, T)" and n: "n < m"
    by (simp_all add: C_def T_def)
  have lenC: "length C = 3 * m" and lenT: "length T = m" by (simp_all add: C_def T_def)
  have Cn: "C ! k = (if k < 3 * n then tracked_byte thr tip cip k else cip ! k)" if "k < 3 * m" for k
    using that by (simp add: C_def)
  have Tn: "T ! i = (if i < n then tracked_time thr tip cip timers i else timers ! i)" if "i < m" for i
    using that by (simp add: T_def)
  have same: "C ! (3 * n + c) = cip ! (3 * n + c)" if "c < 3" for c
    using that n by (simp add: Cn)
  have dif: "differs thr tip C n = differs thr tip cip n"
    by (rule differs_cong) (simp_all add: same)
  have tb: "tracked_byte thr tip C k = tracked_byte thr tip cip k" if "3 * n \<le> k" "k < 3 * n + 3" for k
  proof -
    from pixel_index [OF that] obtain c where c: "c < 3" "k = 3 * n + c" and kd: "k div 3 = n" by blast
    show ?thesis unfolding tracked_byte_def kd dif using same [OF c(1)] c(2) by simp
  qed
  have tt: "tracked_time thr tip C T n = tracked_time thr tip cip timers n"
    using n by (simp add: tracked_time_def dif Tn)
  have step: "track_pixel thr tip n (C, T) =
      (map (\<lambda>k. if 3 * n \<le> k \<and> k < 3 * n + 3 then tracked_byte thr tip C k else C ! k) [0..<3 * m],
       T[n := tracked_time thr tip C T n])"
    by (rule track_pixel_step) (simp_all add: len n lenC)
  have C': "map (\<lambda>k. if 3 * n \<le> k \<and> k < 3 * n + 3 then tracked_byte thr tip C k else C ! k) [0..<3 * m]
      = map (\<lambda>k. if k < 3 * Suc n then tracked_byte thr tip cip k else cip ! k) [0..<3 * m]"
  proof (rule nth_equalityI)
    fix k assume "k < length (map (\<lambda>k. if 3 * n \<le> k \<and> k < 3 * n + 3 then tracked_byte thr tip C k else C ! k) [0..<3 * m])"
    then have k: "k < 3 * m" by simp
    consider "k < 3 * n" | "3 * n \<le> k" "k < 3 * n + 3" | "3 * n + 3 \<le> k" by linarith
    then show "map (\<lambda>k. if 3 * n \<le> k \<and> k < 3 * n + 3 then tracked_byte thr tip C k else C ! k) [0..<3 * m] ! k
        = map (\<lambda>k. if k < 3 * Suc n then tracked_byte thr tip cip k else cip ! k) [0..<3 * m] ! k"
      using k by cases (simp_all add: tb Cn)
  qed simp
  have T': "T[n := tracked_time thr tip C T n]
      = map (\<lambda>i. if i < Suc n then tracked_time thr tip cip timers i else timers ! i) [0..<m]"
  proof (rule nth_equalityI)
    fix i assume "i < length (T[n := tracked_time thr tip C T n])"
    then have i: "i < m" by (simp add: lenT)
    show "T[n := tracked_time thr tip C T n] ! i
        = map (\<lambda>i. if i < Suc n then tracked_time thr tip cip timers i else timers ! i) [0..<m] ! i"
      using i by (cases "i = n") (simp_all add: nth_list_update lenT tt Tn less_Suc_eq)
  qed (simp add: lenT)
  have "fold (track_pixel thr tip) [0..<Suc n] (cip, timers) = track_pixel thr tip n (C, T)"
    by (simp add: IH)
  then show ?case unfolding step C' T' .
qed

lemma promote_pixel_step:
  assumes len: "length R = 3 * m" "length cip = 3 * m" "length B = 3 * m" and n: "n < m"
  shows "promote_pixel thr cap cip timers n (R, Rec, B) =
     (map (\<lambda>k. if 3 * n \<le> k \<and> k < 3 * n + 3 then promoted_ref cip timers R Rec k else R ! k) [0..<3 * m],
      Rec[n := promoted_record cap timers Rec n],
      B[3 * n := (if differs thr
           (map (\<lambda>k. if 3 * n \<le> k \<and> k < 3 * n + 3 then promoted_ref cip timers R Rec k else R ! k) [0..<3 * m])
           cip n then 255 else 0)])"
proof -
  have o: "n * kBytesPerPixel = 3 * n" by (simp add: kBytesPerPixel_def)
  have b: "3 * n + 2 < 3 * m" using n by linarith
  let ?R' = "map (\<lambda>k. if 3 * n \<le> k \<and> k < 3 * n + 3 then promoted_ref cip timers R Rec k else R ! k) [0..<3 * m]"
  have R': "(if Rec ! n < timers ! n then memcpy R (3 * n) cip (3 * n) kBytesPerPixel else R) = ?R'"
  proof (rule nth_equalityI)
    show "length (if Rec ! n < timers ! n then memcpy R (3 * n) cip (3 * n) kBytesPerPixel else R) = length ?R'"
      by (simp add: len)
  next
    fix k assume "k < length (if Rec ! n < timers ! n then memcpy R (3 * n) cip (3 * n) kBytesPerPixel else R)"
    then have k: "k < 3 * m" by (simp add: len split: if_splits)
    show "(if Rec ! n < timers ! n then memcpy R (3 * n) cip (3 * n) kBytesPerPixel else R) ! k = ?R' ! k"
      using k b len pixel_index(1) [of n k] by (simp add: memcpy3_nth promoted_ref_def)
  qed
  have d: "pixelIsDifferent thr (drop (3 * n) ?R') (drop (3 * n) cip) = differs thr ?R' cip n"
    using b len by (subst pixelIsDifferent_drop) (simp_all add: differs_def)
  show ?thesis
    unfolding promote_pixel_def Let_def o fst_conv snd_conv R' d
    by (simp add: promoted_record_def)
qed

lemma promote_fold:
  assumes len: "length rip = 3 * m" "length cip = 3 * m" "length bmp = 3 * m" "length records = m"
    and n: "n \<le> m"
  shows "fold (promote_pixel thr cap cip timers) [0..<n] (rip, records, bmp) =
     (map (\<lambda>k. if k < 3 * n then promoted_ref cip timers rip records k else rip ! k) [0..<3 * m],
      map (\<lambda>i. if i < n then promoted_record cap timers records i else records ! i) [0..<m],
      map (\<lambda>k. if k < 3 * n
                then raw_mask thr cip (map (promoted_ref cip timers rip records) [0..<3 * m]) bmp k
                else bmp ! k) [0..<3 * m])"
  using n
proof (induction n)
  case 0
  show ?case using len by (simp add: map_nth [symmetric] del: map_nth) (metis map_nth)
next
  case (Suc n)
  define RIP where "RIP = map (promoted_ref cip timers rip records) [0..<3 * m]"
  define R where "R = map (\<lambda>k. if k < 3 * n then promoted_ref cip timers rip records k else rip ! k) [0..<3 * m]"
  define Rec where "Rec = map (\<lambda>i. if i < n then promoted_record cap timers records i else records ! i) [0..<m]"
  define B where "B = map (\<lambda>k. if k < 3 * n then raw_mask thr cip RIP bmp k else bmp ! k) [0..<3 * m]"
  from Suc have IH: "fold (promote_pixel thr cap cip timers) [0..<n] (rip, records, bmp) = (R, Rec, B)"
    and n: "n < m"
    by (simp_all add: R_def Rec_def B_def RIP_def)
  have lens: "length R = 3 * m" "length Rec = m" "length B = 3 * m" "length RIP = 3 * m"
    by (simp_all add: R_def Rec_def B_def RIP_def)
  have Rn: "R ! k = (if k < 3 * n then promoted_ref cip timers rip records k else rip ! k)" if "k < 3 * m" for k
    using that by (simp add: R_def)
  have Recn: "Rec ! i = (if i < n then promoted_record cap timers records i else records ! i)" if "i < m" for i
    using that by (simp add: Rec_def)
  have Bn: "B ! k = (if k < 3 * n then raw_mask thr cip RIP bmp k else bmp ! k)" if "k < 3 * m" for k
    using that by (simp add: B_def)
  define R' where "R' = map (\<lambda>k. if 3 * n \<le> k \<and> k < 3 * n + 3 then promoted_ref cip timers R Rec k else R ! k) [0..<3 * m]"
  have step: "promote_pixel thr cap cip timers n (R, Rec, B) =
      (R', Rec[n := promoted_record cap timers Rec n], B[3 * n := (if differs thr R' cip n then 255 else 0)])"
    unfolding R'_def by (rule promote_pixel_step) (simp_all add: len lens n)
  have pr: "promoted_ref cip timers R Rec k = promoted_ref cip timers rip records k"
    if "3 * n \<le> k" "k < 3 * n + 3" for k
  proof -
    from pixel_index(1) [OF that] have kd: "k div 3 = n" .
    have "k < 3 * m" using that n by linarith
    then show ?thesis unfolding promoted_ref_def kd using n that by (simp add: Rn Recn)
  qed
  have R'n: "R' ! k = (if k < 3 * Suc n then promoted_ref cip timers rip records k else rip ! k)"
    if k: "k < 3 * m" for k
  proof -
    consider "k < 3 * n" | "3 * n \<le> k" "k < 3 * n + 3" | "3 * n + 3 \<le> k" by linarith
    then show ?thesis using k by cases (simp_all add: R'_def pr Rn)
  qed
  have R'eq: "R' = map (\<lambda>k. if k < 3 * Suc n then promoted_ref cip timers rip records k else rip ! k) [0..<3 * m]"
  proof (rule nth_equalityI)
    show "length R' = length (map (\<lambda>k. if k < 3 * Suc n then promoted_ref cip timers rip records k
        else rip ! k) [0..<3 * m])"
      by (simp add: R'_def)
  next
    fix k assume "k < length R'"
    then have k: "k < 3 * m" by (simp add: R'_def)
    show "R' ! k = map (\<lambda>k. if k < 3 * Suc n then promoted_ref cip timers rip records k
        else rip ! k) [0..<3 * m] ! k"
      using k by (simp add: R'n)
  qed
  have Rec'eq: "Rec[n := promoted_record cap timers Rec n]
      = map (\<lambda>i. if i < Suc n then promoted_record cap timers records i else records ! i) [0..<m]"
  proof (rule nth_equalityI)
    fix i assume "i < length (Rec[n := promoted_record cap timers Rec n])"
    then have i: "i < m" by (simp add: lens)
    have "promoted_record cap timers Rec n = promoted_record cap timers records n"
      using n by (simp add: promoted_record_def Recn)
    then show "Rec[n := promoted_record cap timers Rec n] ! i
        = map (\<lambda>i. if i < Suc n then promoted_record cap timers records i else records ! i) [0..<m] ! i"
      using i by (cases "i = n") (simp_all add: nth_list_update lens Recn less_Suc_eq)
  qed (simp add: lens)
  have dif: "differs thr R' cip n = differs thr RIP cip n"
  proof (rule differs_cong)
    fix c :: nat assume c: "c < 3"
    then have "3 * n + c < 3 * m" "3 * n + c < 3 * Suc n" using n by simp_all
    then show "R' ! (3 * n + c) = RIP ! (3 * n + c)" by (simp add: R'n RIP_def)
  qed simp
  have B'eq: "B[3 * n := (if differs thr R' cip n then 255 else 0)]
      = map (\<lambda>k. if k < 3 * Suc n then raw_mask thr cip RIP bmp k else bmp ! k) [0..<3 * m]"
  proof (rule nth_equalityI)
    fix k assume "k < length (B[3 * n := (if differs thr R' cip n then 255 else 0)])"
    then have k: "k < 3 * m" by (simp add: lens)
    consider "k < 3 * n" | "k = 3 * n" | "k = 3 * n + 1" | "k = 3 * n + 2" | "3 * n + 3 \<le> k" by linarith
    then show "B[3 * n := (if differs thr R' cip n then 255 else 0)] ! k
        = map (\<lambda>k. if k < 3 * Suc n then raw_mask thr cip RIP bmp k else bmp ! k) [0..<3 * m] ! k"
      using k by cases (simp_all add: nth_list_update lens Bn dif raw_mask_def)
  qed (simp add: lens)
  have "fold (promote_pixel thr cap cip timers) [0..<Suc n] (rip, records, bmp)
      = promote_pixel thr cap cip timers n (R, Rec, B)"
    by (simp add: IH)
  then have "fold (promote_pixel thr cap cip timers) [0..<Suc n] (rip, records, bmp)
      = (R', map (\<lambda>i. if i < Suc n then promoted_record cap timers records i else records ! i) [0..<m],
         map (\<lambda>k. if k < 3 * Suc n then raw_mask thr cip RIP bmp k else bmp ! k) [0..<3 * m])"
    unfolding step B'eq Rec'eq .
  then show ?case unfolding R'eq RIP_def .
qed

lemma update_model_params [simp]:
  "stableCap (update_model s) = stableCap s" "erosionLevel (update_model s) = erosionLevel s"
  "motionThreshold (update_model s) = motionThreshold s" "imageArea (update_model s) = imageArea s"
  "firstFrame (update_model s) = firstFrame s"
  by (simp_all add: update_model_def Let_def)

lemma generateMotionMask_steps:
  assumes ok: "state_ok s" and fits: "frame_fits s frame"
  shows "\<exists>r a b c A. length A = imageSize s \<and>
     downscale frame (downscaleBuff (benchmark_tick tm s)) (benchmark_tick tm s) = Returns r \<and>
     generateMotionMask tm frame s =
       (if firstFrame s then Returns (first_frame_copy (store_downscaled r))
        else if 0 < erosionLevel s then morphological_filter (update_model (store_downscaled r))
        else Returns (update_model (store_downscaled r))) \<and>
     stableRecords (first_frame_copy (store_downscaled r)) = stableRecords s \<and>
     stableCap (first_frame_copy (store_downscaled r)) = stableCap s \<and>
     update_model (store_downscaled r) =
       (updated frame s)\<lparr>detectorFPS := a, framesCounted := b, lastMark := c,
                  downscaleAccumulators := A\<rparr>"
proof -
  obtain a b c where bt: "benchmark_tick tm s = s\<lparr>detectorFPS := a, framesCounted := b, lastMark := c\<rparr>"
    using benchmark_tick_fields by blast
  let ?sb = "s\<lparr>detectorFPS := a, framesCounted := b, lastMark := c\<rparr>"
  have okb: "state_ok ?sb" and fitsb: "frame_fits ?sb frame" using ok fits by simp_all
  have dimb: "frame_dims ?sb (downscaleBuff ?sb)" using okb by (simp add: state_ok_def)
  from downscale_returns [OF okb fitsb dimb]
  obtain A where A: "length A = imageSize s"
    and ds: "downscale frame (downscaleBuff ?sb) ?sb
        = Returns ((downscaleBuff ?sb)\<lparr>getPixels := downscaled frame\<rparr>, ?sb\<lparr>downscaleAccumulators := A\<rparr>)"
    by auto
  define r where "r = ((downscaleBuff ?sb)\<lparr>getPixels := downscaled frame\<rparr>, ?sb\<lparr>downscaleAccumulators := A\<rparr>)"
  have ds': "downscale frame (downscaleBuff (benchmark_tick tm s)) (benchmark_tick tm s) = Returns r"
    unfolding bt r_def by (rule ds)
  define m where "m = imageArea s"
  from ok have sz: "imageSize s = m * kBytesPerPixel" "imageSize s = 3 * m"
    and lens: "length (getPixels (motionMask s)) = 3 * m" "length (getPixels (currentImage s)) = 3 * m"
      "length (getPixels (refImage s)) = 3 * m" "length (currentStableTimes s) = m"
      "length (stableRecords s) = m"
    by (simp_all add: state_ok_def frame_dims_def m_def kBytesPerPixel_def)
  have dl: "length (downscaled frame) = 3 * m"
    using frame_fits_bounds [OF fits] ok
    by (simp add: downscaled_def state_ok_def m_def mult.commute)
  define thr where "thr = motionThreshold s"
  define tip where "tip = downscaled frame"
  define cip where "cip = map (tracked_byte thr tip (getPixels (currentImage s))) [0..<3 * m]"
  define timers where "timers = map (tracked_time thr tip (getPixels (currentImage s)) (currentStableTimes s)) [0..<m]"
  have p1: "fold (track_pixel thr tip) [0..<m] (getPixels (currentImage s), currentStableTimes s)
      = (cip, timers)"
    using track_fold [of tip m "getPixels (currentImage s)" "currentStableTimes s" m thr] dl lens
    by (simp add: tip_def cip_def timers_def)
  have lc: "length cip = 3 * m" by (simp add: cip_def)
  have p2: "fold (promote_pixel thr (stableCap s) cip timers) [0..<m]
        (getPixels (refImage s), stableRecords s, getPixels (motionMask s))
      = (map (promoted_ref cip timers (getPixels (refImage s)) (stableRecords s)) [0..<3 * m],
         map (promoted_record (stableCap s) timers (stableRecords s)) [0..<m],
         map (raw_mask thr cip (map (promoted_ref cip timers (getPixels (refImage s)) (stableRecords s)) [0..<3 * m])
                (getPixels (motionMask s))) [0..<3 * m])"
    using promote_fold [of "getPixels (refImage s)" m cip "getPixels (motionMask s)" "stableRecords s" m
        thr "stableCap s" timers] lens lc
    by simp
  have um: "update_model (store_downscaled r) =
       (updated frame s)\<lparr>detectorFPS := a, framesCounted := b, lastMark := c,
                  downscaleAccumulators := A\<rparr>"
    unfolding r_def
    by (simp add: Let_def store_downscaled_def update_model_def sz(1) p1 p2 updated_def
        thr_def [symmetric] m_def [symmetric] tip_def [symmetric] cip_def [symmetric] timers_def [symmetric])
  have f1: "firstFrame (store_downscaled r) = firstFrame s"
    and e1: "erosionLevel (store_downscaled r) = erosionLevel s"
    and r1: "stableRecords (first_frame_copy (store_downscaled r)) = stableRecords s"
    and c1: "stableCap (first_frame_copy (store_downscaled r)) = stableCap s"
    by (simp_all add: r_def store_downscaled_def first_frame_copy_def)
  have gm: "generateMotionMask tm frame s =
       (if firstFrame s then Returns (first_frame_copy (store_downscaled r))
        else if 0 < erosionLevel s then morphological_filter (update_model (store_downscaled r))
        else Returns (update_model (store_downscaled r)))"
    unfolding generateMotionMask_def ds' by (simp add: Let_def f1 e1)
  from A ds' gm r1 c1 um show ?thesis by blast
qed

lemma generateMotionMask_next:
  assumes ok: "state_ok s" and nf: "\<not> firstFrame s" and fits: "frame_fits s frame"
    and ero: "erosionLevel s \<le> 0"
  shows "\<exists>a b c A. length A = imageSize s \<and>
     generateMotionMask tm frame s =
       Returns ((updated frame s)\<lparr>detectorFPS := a, framesCounted := b, lastMark := c,
                  downscaleAccumulators := A\<rparr>)"
proof -
  from generateMotionMask_steps [OF ok fits, of tm]
  obtain r a b c A where A: "length A = imageSize s"
    and gm: "generateMotionMask tm frame s =
       (if firstFrame s then Returns (first_frame_copy (store_downscaled r))
        else if 0 < erosionLevel s then morphological_filter (update_model (store_downscaled r))
        else Returns (update_model (store_downscaled r)))"
    and um: "update_model (store_downscaled r) =
       (updated frame s)\<lparr>detectorFPS := a, framesCounted := b, lastMark := c,
                  downscaleAccumulators := A\<rparr>"
    by blast
  from gm nf ero have "generateMotionMask tm frame s = Returns (update_model (store_downscaled r))"
    by simp
  with um A show ?thesis by auto
qed

lemma nudge_uint:
  fixes t c :: uint8
  shows "uint (c + word_of_int (Math_sign (uint t - uint c))) = uint c + Math_sign (uint t - uint c)"
proof -
  have bt: "uint t < 256" "uint c < 256" using uint_bounded [of t] uint_bounded [of c] by simp_all
  consider "uint c < uint t" | "uint t < uint c" | "uint t = uint c" by linarith
  then show ?thesis
  proof cases
    case 1
    then have "uint c + uint (1 :: uint8) < 2 ^ LENGTH(8)" using bt by simp
    then have "uint (c + 1) = uint c + uint (1 :: uint8)" by (simp only: uint_add_lem)
    with 1 show ?thesis by (simp add: Math_sign_def)
  next
    case 2
    moreover have "0 \<le> uint t" by simp
    ultimately have "1 \<le> uint c" by linarith
    then have "uint (1 :: uint8) \<le> uint c" by simp
    then have "uint (c - 1) = uint c - uint (1 :: uint8)" by (simp only: uint_sub_lem)
    with 2 show ?thesis by (simp add: Math_sign_def)
  next
    case 3
    then show ?thesis by (simp add: Math_sign_def)
  qed
qed

lemma tracked_byte_close:
  assumes thr: "0 \<le> thr"
    and near: "\<not> differs thr tip cip (k div 3) \<Longrightarrow> \<bar>uint (tip ! k) - uint (cip ! k)\<bar> \<le> thr"
  shows "\<bar>uint (tip ! k) - uint (tracked_byte thr tip cip k)\<bar> \<le> thr"
proof (cases "differs thr tip cip (k div 3)")
  case True
  then show ?thesis using thr by (simp add: tracked_byte_def)
next
  case False
  define d where "d = uint (tip ! k) - uint (cip ! k)"
  have "uint (tracked_byte thr tip cip k) = uint (cip ! k) + Math_sign d"
    using False by (simp add: tracked_byte_def nudge_uint d_def)
  then have "uint (tip ! k) - uint (tracked_byte thr tip cip k) = d - Math_sign d"
    by (simp add: d_def)
  moreover have "\<bar>d - Math_sign d\<bar> \<le> \<bar>d\<bar>"
    by (simp add: Math_sign_def)
  moreover have "\<bar>d\<bar> \<le> thr" using near [OF False] by (simp add: d_def)
  ultimately show ?thesis by linarith
qed

lemma not_differs_byte:
  assumes "\<not> differs thr a b (k div 3)"
  shows "\<bar>uint (a ! k) - uint (b ! k)\<bar> \<le> thr"
proof -
  have "k mod 3 < 3" "3 * (k div 3) + k mod 3 = k" by simp_all
  with assms show ?thesis unfolding differs_def by (metis not_less)
qed

lemma differs_same: "0 \<le> thr \<Longrightarrow> \<not> differs thr a a i"
  by (simp add: differs_def)

lemma updated_fields [simp]:
  "imageArea (updated frame s) = imageArea s" "imageSize (updated frame s) = imageSize s"
  "imageWidth (updated frame s) = imageWidth s" "imageHeight (updated frame s) = imageHeight s"
  "destLineSize (updated frame s) = destLineSize s" "srcLineSize (updated frame s) = srcLineSize s"
  "stableCap (updated frame s) = stableCap s" "motionThreshold (updated frame s) = motionThreshold s"
  "erosionLevel (updated frame s) = erosionLevel s" "firstFrame (updated frame s) = firstFrame s"
  "erodedMask (updated frame s) = erodedMask s"
  "downscaleAccumulators (updated frame s) = downscaleAccumulators s"
  by (simp_all add: updated_def Let_def)

lemma updated_buffers:
  "getPixels (currentImage (updated frame s))
     = map (tracked_byte (motionThreshold s) (downscaled frame) (getPixels (currentImage s))) [0..<3 * imageArea s]"
  "currentStableTimes (updated frame s)
     = map (tracked_time (motionThreshold s) (downscaled frame) (getPixels (currentImage s))
              (currentStableTimes s)) [0..<imageArea s]"
  "getPixels (refImage (updated frame s))
     = map (promoted_ref (getPixels (currentImage (updated frame s))) (currentStableTimes (updated frame s))
              (getPixels (refImage s)) (stableRecords s)) [0..<3 * imageArea s]"
  "stableRecords (updated frame s)
     = map (promoted_record (stableCap s) (currentStableTimes (updated frame s)) (stableRecords s))
         [0..<imageArea s]"
  "getPixels (motionMask (updated frame s))
     = map (raw_mask (motionThreshold s) (getPixels (currentImage (updated frame s)))
              (getPixels (refImage (updated frame s))) (getPixels (motionMask s))) [0..<3 * imageArea s]"
  "getPixels (downscaleBuff (updated frame s)) = downscaled frame"
  by (simp_all add: updated_def Let_def)

lemma updated_state_ok:
  assumes "state_ok s" "frame_fits s frame"
  shows "state_ok (updated frame s)" "frame_fits (updated frame s) frame"
proof -
  have dl: "length (downscaled frame) = imageSize s"
    using frame_fits_bounds [OF assms(2)] assms(1)
    by (simp add: downscaled_def state_ok_def kBytesPerPixel_def)
  show "state_ok (updated frame s)"
    using assms(1) dl by (simp add: state_ok_def frame_dims_def updated_def Let_def kBytesPerPixel_def mult.commute)
  show "frame_fits (updated frame s) frame"
    using assms(2) by (simp add: frame_fits_def updated_def Let_def)
qed

lemma updated_records_capped:
  assumes "state_ok s" "records_capped s"
  shows "records_capped (updated frame s)"
proof -
  have len: "length (stableRecords s) = imageArea s" using assms(1) by (simp add: state_ok_def)
  have "promoted_record (stableCap s) T (stableRecords s) i \<le> stableCap s" if "i < imageArea s" for i T
    using assms(2) that len by (simp add: promoted_record_def records_capped_def list_all_length)
  then show ?thesis
    by (simp add: records_capped_def updated_buffers list_all_length)
qed

lemma updated_settled:
  assumes "0 \<le> motionThreshold s"
  shows "settled (motionThreshold s) (downscaled frame) (getPixels (currentImage (updated frame s))) (imageArea s)"
  unfolding settled_def
proof (intro allI impI)
  fix i assume i: "i < imageArea s"
  show "\<not> differs (motionThreshold s) (downscaled frame) (getPixels (currentImage (updated frame s))) i"
    unfolding differs_def
  proof (intro notI, elim exE conjE)
    fix c :: nat assume c: "c < 3"
      and far: "motionThreshold s < \<bar>uint (downscaled frame ! (3 * i + c))
          - uint (getPixels (currentImage (updated frame s)) ! (3 * i + c))\<bar>"
    have k: "3 * i + c < 3 * imageArea s" using i c by linarith
    have "\<bar>uint (downscaled frame ! (3 * i + c))
        - uint (tracked_byte (motionThreshold s) (downscaled frame) (getPixels (currentImage s)) (3 * i + c))\<bar>
        \<le> motionThreshold s"
      by (rule tracked_byte_close [OF assms]) (rule not_differs_byte)
    with far k show False by (simp add: updated_buffers)
  qed
qed

lemma updated_timers_settled:
  assumes "settled (motionThreshold s) (downscaled frame) (getPixels (currentImage s)) (imageArea s)"
    and "i < imageArea s"
  shows "currentStableTimes (updated frame s) ! i = currentStableTimes s ! i + 1"
  using assms by (simp add: updated_buffers tracked_time_def settled_def)

lemma updated_timers_any:
  assumes "i < imageArea s"
  shows "currentStableTimes (updated frame s) ! i = 0
     \<or> currentStableTimes (updated frame s) ! i = currentStableTimes s ! i + 1"
  using assms by (simp add: updated_buffers tracked_time_def)

lemma updated_promoted:
  assumes "\<forall>i<imageArea s. stableRecords s ! i < currentStableTimes (updated frame s) ! i"
  shows "getPixels (refImage (updated frame s)) = getPixels (currentImage (updated frame s))"
    and "0 \<le> motionThreshold s \<Longrightarrow> i < imageArea s \<Longrightarrow>
      getPixels (motionMask (updated frame s)) ! (i * kBytesPerPixel) = 0"
proof -
  define cip where "cip = getPixels (currentImage (updated frame s))"
  have lc: "length cip = 3 * imageArea s" by (simp add: cip_def updated_buffers)
  have "map (promoted_ref cip (currentStableTimes (updated frame s)) (getPixels (refImage s))
      (stableRecords s)) [0..<3 * imageArea s] = map ((!) cip) [0..<3 * imageArea s]"
  proof (rule map_cong [OF refl])
    fix k assume "k \<in> set [0..<3 * imageArea s]"
    then have "k div 3 < imageArea s" by simp
    with assms show "promoted_ref cip (currentStableTimes (updated frame s)) (getPixels (refImage s))
      (stableRecords s) k = cip ! k"
      by (simp add: promoted_ref_def)
  qed
  also have "\<dots> = cip" using map_nth [of cip] by (simp add: lc)
  finally show eq: "getPixels (refImage (updated frame s)) = getPixels (currentImage (updated frame s))"
    by (simp add: updated_buffers(3) cip_def)
  assume thr: "0 \<le> motionThreshold s" and i: "i < imageArea s"
  have "3 * i < 3 * imageArea s" using i by simp
  then show "getPixels (motionMask (updated frame s)) ! (i * kBytesPerPixel) = 0"
    unfolding updated_buffers(5) eq kBytesPerPixel_def
    by (simp add: raw_mask_def differs_same [OF thr] mult.commute)
qed

subsection \<open>The same frame, call after call\<close>

lemma state_ok_scratch:
  "state_ok s \<Longrightarrow> length A = imageSize s \<Longrightarrow>
   state_ok (s\<lparr>detectorFPS := a, framesCounted := b, lastMark := c, downscaleAccumulators := A\<rparr>)"
  by (simp add: state_ok_def frame_dims_def)

lemma frame_fits_scratch [simp]:
  "frame_fits (s\<lparr>detectorFPS := a, framesCounted := b, lastMark := c, downscaleAccumulators := A\<rparr>) frame
     = frame_fits s frame"
  by (simp add: frame_fits_def)

lemma records_capped_scratch [simp]:
  "records_capped (s\<lparr>detectorFPS := a, framesCounted := b, lastMark := c, downscaleAccumulators := A\<rparr>)
     = records_capped s"
  by (simp add: records_capped_def)

lemma next_good:
  assumes g: "good frame s" and nf: "\<not> firstFrame s"
  shows "\<exists>s'. generateMotionMask tm frame s = Returns s' \<and> good frame s' \<and> \<not> firstFrame s' \<and>
     imageArea s' = imageArea s \<and> stableCap s' = stableCap s \<and>
     motionThreshold s' = motionThreshold s \<and>
     settled (motionThreshold s) (downscaled frame) (getPixels (currentImage s')) (imageArea s) \<and>
     (\<forall>i<imageArea s. currentStableTimes s' ! i = 0
        \<or> currentStableTimes s' ! i = currentStableTimes s ! i + 1) \<and>
     (settled (motionThreshold s) (downscaled frame) (getPixels (currentImage s)) (imageArea s) \<longrightarrow>
        (\<forall>i<imageArea s. currentStableTimes s' ! i = currentStableTimes s ! i + 1)) \<and>
     ((\<forall>i<imageArea s. stableRecords s ! i < currentStableTimes s' ! i) \<longrightarrow>
        getPixels (refImage s') = getPixels (currentImage s') \<and>
        (\<forall>i<imageArea s. getPixels (motionMask s') ! (i * kBytesPerPixel) = 0))"
proof -
  from g have ok: "state_ok s" and fits: "frame_fits s frame" and ero: "erosionLevel s \<le> 0"
    and thr: "0 \<le> motionThreshold s" and cap: "records_capped s"
    by (simp_all add: good_def)
  from generateMotionMask_next [OF ok nf fits ero, of tm]
  obtain a b c A where A: "length A = imageSize s"
    and run: "generateMotionMask tm frame s =
       Returns ((updated frame s)\<lparr>detectorFPS := a, framesCounted := b, lastMark := c,
                  downscaleAccumulators := A\<rparr>)"
    by blast
  let ?s' = "(updated frame s)\<lparr>detectorFPS := a, framesCounted := b, lastMark := c,
                  downscaleAccumulators := A\<rparr>"
  have "state_ok ?s'"
    using updated_state_ok(1) [OF ok fits] A by (intro state_ok_scratch) simp_all
  then have g': "good frame ?s'"
    using updated_state_ok(2) [OF ok fits] updated_records_capped [OF ok cap] ero thr
    by (simp add: good_def)
  have prom: "getPixels (refImage ?s') = getPixels (currentImage ?s') \<and>
        (\<forall>i<imageArea s. getPixels (motionMask ?s') ! (i * kBytesPerPixel) = 0)"
    if "\<forall>i<imageArea s. stableRecords s ! i < currentStableTimes ?s' ! i"
  proof -
    from that have h: "\<forall>i<imageArea s. stableRecords s ! i < currentStableTimes (updated frame s) ! i"
      by simp
    show ?thesis
      using updated_promoted(1) [OF h] updated_promoted(2) [OF h thr] by simp
  qed
  show ?thesis
    unfolding run
    using g' nf updated_settled [OF thr, of frame] updated_timers_any [of _ s frame]
      updated_timers_settled [of s frame] prom
    by (intro exI [of _ ?s']) simp
qed

lemma first_good:
  assumes g: "good frame s" and f: "firstFrame s"
  shows "\<exists>s'. generateMotionMask tm frame s = Returns s' \<and> good frame s' \<and> \<not> firstFrame s' \<and>
     imageArea s' = imageArea s \<and> stableCap s' = stableCap s \<and>
     motionThreshold s' = motionThreshold s \<and>
     settled (motionThreshold s) (downscaled frame) (getPixels (currentImage s')) (imageArea s) \<and>
     currentStableTimes s' = currentStableTimes s"
proof -
  from g have ok: "state_ok s" and fits: "frame_fits s frame" and ero: "erosionLevel s \<le> 0"
    and thr: "0 \<le> motionThreshold s" and cap: "records_capped s"
    by (simp_all add: good_def)
  from generateMotionMask_first [OF ok f fits, of tm]
  obtain s' where run: "generateMotionMask tm frame s = Returns s'"
    and cur: "getPixels (currentImage s') = downscaled frame"
    and rest: "\<not> firstFrame s'" "state_ok s'" "frame_fits s' frame"
      "motionThreshold s' = motionThreshold s" "stableCap s' = stableCap s"
      "erosionLevel s' = erosionLevel s" "imageArea s' = imageArea s"
      "currentStableTimes s' = currentStableTimes s" "stableRecords s' = stableRecords s"
    by blast
  have "good frame s'"
    using rest ero thr cap by (simp add: good_def records_capped_def)
  moreover have "settled (motionThreshold s) (downscaled frame) (getPixels (currentImage s')) (imageArea s)"
    unfolding cur settled_def using differs_same [OF thr] by blast
  ultimately show ?thesis using run rest by blast
qed

lemma unat_timer_succ:
  fixes t :: uint32
  assumes "unat t + 1 < 2 ^ 32"
  shows "unat (t + 1) = unat t + 1"
proof -
  have "unat t + unat (1 :: uint32) < 2 ^ LENGTH(32)" using assms by simp
  then have "unat (t + 1) = unat t + unat (1 :: uint32)" by (simp only: unat_add_lem)
  then show ?thesis by simp
qed

lemma stable_run:
  assumes "good frame s" and "\<not> firstFrame s"
    and "settled (motionThreshold s) (downscaled frame) (getPixels (currentImage s)) (imageArea s)"
    and "\<forall>i<imageArea s. unat (currentStableTimes s ! i) + length tms < 2 ^ 32"
  shows "\<exists>s'. run_frames tms frame s = Returns s' \<and> good frame s' \<and> \<not> firstFrame s' \<and>
     imageArea s' = imageArea s \<and> stableCap s' = stableCap s \<and>
     motionThreshold s' = motionThreshold s \<and>
     settled (motionThreshold s) (downscaled frame) (getPixels (currentImage s')) (imageArea s) \<and>
     (\<forall>i<imageArea s. unat (currentStableTimes s' ! i) = unat (currentStableTimes s ! i) + length tms) \<and>
     (tms \<noteq> [] \<and> (\<forall>i<imageArea s. unat (stableCap s) < unat (currentStableTimes s ! i) + length tms) \<longrightarrow>
        getPixels (refImage s') = getPixels (currentImage s') \<and>
        (\<forall>i<imageArea s. getPixels (motionMask s') ! (i * kBytesPerPixel) = 0))"
  using assms
proof (induction tms arbitrary: s)
  case Nil
  then show ?case by simp
next
  case (Cons tm rest)
  note g = Cons.prems(1) and nf = Cons.prems(2) and st = Cons.prems(3) and nw = Cons.prems(4)
  from next_good [OF g nf, of tm]
  obtain s1 where run1: "generateMotionMask tm frame s = Returns s1"
    and g1: "good frame s1" and nf1: "\<not> firstFrame s1"
    and same1: "imageArea s1 = imageArea s" "stableCap s1 = stableCap s"
      "motionThreshold s1 = motionThreshold s"
    and st1: "settled (motionThreshold s) (downscaled frame) (getPixels (currentImage s1)) (imageArea s)"
    and inc: "settled (motionThreshold s) (downscaled frame) (getPixels (currentImage s)) (imageArea s) \<longrightarrow>
        (\<forall>i<imageArea s. currentStableTimes s1 ! i = currentStableTimes s ! i + 1)"
    and prom: "(\<forall>i<imageArea s. stableRecords s ! i < currentStableTimes s1 ! i) \<longrightarrow>
        getPixels (refImage s1) = getPixels (currentImage s1) \<and>
        (\<forall>i<imageArea s. getPixels (motionMask s1) ! (i * kBytesPerPixel) = 0)"
    by blast
  have t1: "unat (currentStableTimes s1 ! i) = unat (currentStableTimes s ! i) + 1"
    if i: "i < imageArea s" for i
  proof -
    from inc st i have "currentStableTimes s1 ! i = currentStableTimes s ! i + 1" by blast
    moreover have "unat (currentStableTimes s ! i) + 1 < 2 ^ 32" using nw i by fastforce
    ultimately show ?thesis by (simp add: unat_timer_succ)
  qed
  have nw1: "\<forall>i<imageArea s1. unat (currentStableTimes s1 ! i) + length rest < 2 ^ 32"
    using nw t1 same1(1) by fastforce
  from Cons.IH [OF g1 nf1 _ nw1] st1 same1
  obtain s' where run': "run_frames rest frame s1 = Returns s'"
    and g': "good frame s'" and nf': "\<not> firstFrame s'"
    and same': "imageArea s' = imageArea s" "stableCap s' = stableCap s"
      "motionThreshold s' = motionThreshold s"
    and st': "settled (motionThreshold s) (downscaled frame) (getPixels (currentImage s')) (imageArea s)"
    and t': "\<forall>i<imageArea s. unat (currentStableTimes s' ! i) = unat (currentStableTimes s1 ! i) + length rest"
    and fin': "rest \<noteq> [] \<and> (\<forall>i<imageArea s. unat (stableCap s) < unat (currentStableTimes s1 ! i) + length rest) \<longrightarrow>
        getPixels (refImage s') = getPixels (currentImage s') \<and>
        (\<forall>i<imageArea s. getPixels (motionMask s') ! (i * kBytesPerPixel) = 0)"
    by auto
  have run: "run_frames (tm # rest) frame s = Returns s'" by (simp add: run1 run')
  have tt: "\<forall>i<imageArea s. unat (currentStableTimes s' ! i)
      = unat (currentStableTimes s ! i) + length (tm # rest)"
    using t' t1 by simp
  have fin: "getPixels (refImage s') = getPixels (currentImage s') \<and>
        (\<forall>i<imageArea s. getPixels (motionMask s') ! (i * kBytesPerPixel) = 0)"
    if over: "\<forall>i<imageArea s. unat (stableCap s) < unat (currentStableTimes s ! i) + length (tm # rest)"
  proof (cases "rest = []")
    case True
    from g have ok: "state_ok s" and cap: "records_capped s" by (simp_all add: good_def)
    have "stableRecords s ! i < currentStableTimes s1 ! i" if i: "i < imageArea s" for i
    proof -
      have "i < length (stableRecords s)" using ok i by (simp add: state_ok_def)
      with cap have "stableRecords s ! i \<le> stableCap s"
        by (simp add: records_capped_def list_all_length)
      then have "unat (stableRecords s ! i) \<le> unat (stableCap s)" by (simp add: word_le_nat_alt)
      moreover have "unat (stableCap s) < unat (currentStableTimes s1 ! i)"
        using over i True t1 [OF i] by simp
      ultimately show ?thesis by (simp add: word_less_nat_alt)
    qed
    with prom True run' show ?thesis by simp
  next
    case False
    have "\<forall>i<imageArea s. unat (stableCap s) < unat (currentStableTimes s1 ! i) + length rest"
      using over t1 by simp
    with fin' False show ?thesis by blast
  qed
  show ?case
    using run g' nf' same' st' tt fin by blast
qed

lemma flat_fits: "frame_fits (constructed mem now 2 2 rate b cap) (flat_frame v)"
  by (rule constructed_frame_fits) (simp_all add: flat_frame_def kBytesPerPixel_def getTotalSize_def)

lemma flat_down: "downscaled (flat_frame 0) = [0, 0, 0]" "downscaled (flat_frame 200) = [200, 200, 200]"
  by (simp_all add: downscaled_def flat_frame_def block_mean_def sample_def kBytesPerPixel_def upt_3)

lemma frame_fits_flat:
  "frame_fits s (flat_frame v) = (srcLineSize s = 6 \<and> imageWidth s = 1 \<and> imageHeight s = 1)"
  by (auto simp add: frame_fits_def flat_frame_def kBytesPerPixel_def kDownscaleRatio_def getTotalSize_def)

lemma reset_capped: "records_capped (reset s)"
  by (simp add: records_capped_def reset_def list_all_length)

text \<open>
  Claim C4, as amended. From a state with buffers of the constructed geometry, erosion
  level 0, a sensitivity that is not negative, records at most \<open>stableCap\<close> and timers
  that do not wrap within the run, \<open>stableCap + 2\<close> or more consecutive calls of
  \<open>generateMotionMask\<close> with the same frame all return, and after the last one the
  reference image is the tracked image and byte 0 of every pixel of the mask is 0.
\<close>

theorem convergence_same_frame:
  assumes "state_ok s" and "frame_fits s frame"
    and "erosionLevel s \<le> 0" and "0 \<le> motionThreshold s" and "records_capped s"
    and "\<forall>i<imageArea s. unat (currentStableTimes s ! i) + length tms < 2 ^ 32"
    and "unat (stableCap s) + 2 \<le> length tms"
  shows "\<exists>s'. run_frames tms frame s = Returns s' \<and>
     getPixels (refImage s') = getPixels (currentImage s') \<and>
     (\<forall>i<imageArea s. getPixels (motionMask s') ! (i * kBytesPerPixel) = 0)"
proof -
  from assms have g: "good frame s" by (simp add: good_def)
  from assms(7) obtain tm rest where tms: "tms = tm # rest" and lr: "unat (stableCap s) + 1 \<le> length rest"
    by (cases tms) simp_all
  have "\<exists>s1. generateMotionMask tm frame s = Returns s1 \<and> good frame s1 \<and> \<not> firstFrame s1 \<and>
     imageArea s1 = imageArea s \<and> stableCap s1 = stableCap s \<and>
     motionThreshold s1 = motionThreshold s \<and>
     settled (motionThreshold s) (downscaled frame) (getPixels (currentImage s1)) (imageArea s) \<and>
     (\<forall>i<imageArea s. unat (currentStableTimes s1 ! i) \<le> unat (currentStableTimes s ! i) + 1)"
  proof (cases "firstFrame s")
    case True
    from first_good [OF g True, of tm] show ?thesis by fastforce
  next
    case False
    from next_good [OF g False, of tm]
    obtain s1 where s1: "generateMotionMask tm frame s = Returns s1" "good frame s1" "\<not> firstFrame s1"
      "imageArea s1 = imageArea s" "stableCap s1 = stableCap s" "motionThreshold s1 = motionThreshold s"
      "settled (motionThreshold s) (downscaled frame) (getPixels (currentImage s1)) (imageArea s)"
      and alt: "\<forall>i<imageArea s. currentStableTimes s1 ! i = 0
        \<or> currentStableTimes s1 ! i = currentStableTimes s ! i + 1"
      by blast
    have "unat (currentStableTimes s1 ! i) \<le> unat (currentStableTimes s ! i) + 1"
      if i: "i < imageArea s" for i
    proof -
      have "unat (currentStableTimes s ! i) + 1 < 2 ^ 32" using assms(6) i tms by fastforce
      then have "unat (currentStableTimes s ! i + 1) = unat (currentStableTimes s ! i) + 1"
        by (rule unat_timer_succ)
      with alt i show ?thesis by fastforce
    qed
    with s1 show ?thesis by blast
  qed
  then obtain s1 where run1: "generateMotionMask tm frame s = Returns s1"
    and g1: "good frame s1" and nf1: "\<not> firstFrame s1"
    and same1: "imageArea s1 = imageArea s" "stableCap s1 = stableCap s"
      "motionThreshold s1 = motionThreshold s"
    and st1: "settled (motionThreshold s) (downscaled frame) (getPixels (currentImage s1)) (imageArea s)"
    and t1: "\<forall>i<imageArea s. unat (currentStableTimes s1 ! i) \<le> unat (currentStableTimes s ! i) + 1"
    by blast
  have nw1: "\<forall>i<imageArea s1. unat (currentStableTimes s1 ! i) + length rest < 2 ^ 32"
    using assms(6) t1 tms same1(1) by fastforce
  from stable_run [OF g1 nf1 _ nw1] st1 same1
  obtain s' where run': "run_frames rest frame s1 = Returns s'"
    and fin': "rest \<noteq> [] \<and> (\<forall>i<imageArea s. unat (stableCap s) < unat (currentStableTimes s1 ! i) + length rest) \<longrightarrow>
        getPixels (refImage s') = getPixels (currentImage s') \<and>
        (\<forall>i<imageArea s. getPixels (motionMask s') ! (i * kBytesPerPixel) = 0)"
    by auto
  have "rest \<noteq> []" using lr by auto
  moreover have "\<forall>i<imageArea s. unat (stableCap s) < unat (currentStableTimes s1 ! i) + length rest"
    using lr by simp
  ultimately have "getPixels (refImage s') = getPixels (currentImage s') \<and>
        (\<forall>i<imageArea s. getPixels (motionMask s') ! (i * kBytesPerPixel) = 0)"
    using fin' by blast
  moreover have "run_frames tms frame s = Returns s'" by (simp add: tms run1 run')
  ultimately show ?thesis by blast
qed

theorem convergence_same_frame_witness:
  "state_ok (reset ((constructed (\<lambda>k i. 0) 0 2 2 1 False 1)\<lparr>erosionLevel := 0\<rparr>)) \<and>
   frame_fits (reset ((constructed (\<lambda>k i. 0) 0 2 2 1 False 1)\<lparr>erosionLevel := 0\<rparr>)) (flat_frame 200) \<and>
   erosionLevel (reset ((constructed (\<lambda>k i. 0) 0 2 2 1 False 1)\<lparr>erosionLevel := 0\<rparr>)) \<le> 0 \<and>
   0 \<le> motionThreshold (reset ((constructed (\<lambda>k i. 0) 0 2 2 1 False 1)\<lparr>erosionLevel := 0\<rparr>)) \<and>
   records_capped (reset ((constructed (\<lambda>k i. 0) 0 2 2 1 False 1)\<lparr>erosionLevel := 0\<rparr>)) \<and>
   imageArea (reset ((constructed (\<lambda>k i. 0) 0 2 2 1 False 1)\<lparr>erosionLevel := 0\<rparr>)) = 1 \<and>
   unat (currentStableTimes (reset ((constructed (\<lambda>k i. 0) 0 2 2 1 False 1)\<lparr>erosionLevel := 0\<rparr>)) ! 0)
     + length [tm0, tm0, tm0] < 2 ^ 32 \<and>
   unat (stableCap (reset ((constructed (\<lambda>k i. 0) 0 2 2 1 False 1)\<lparr>erosionLevel := 0\<rparr>))) + 2
     \<le> length [tm0, tm0, tm0] \<and>
   (\<exists>s'. run_frames [tm0, tm0, tm0] (flat_frame 200)
            (reset ((constructed (\<lambda>k i. 0) 0 2 2 1 False 1)\<lparr>erosionLevel := 0\<rparr>)) = Returns s' \<and>
      getPixels (refImage s') = getPixels (currentImage s') \<and>
      getPixels (motionMask s') ! 0 = 0)"
proof -
  let ?c = "constructed (\<lambda>k i. 0) 0 2 2 1 False 1"
  let ?s = "reset (?c\<lparr>erosionLevel := 0\<rparr>)"
  have ok: "state_ok ?s"
    using constructed_state_ok [of "\<lambda>k i. 0" 0 2 2 1 False 1]
    by (simp add: state_ok_def frame_dims_def reset_def)
  have fit: "frame_fits ?s (flat_frame 200)"
    using flat_fits [of "\<lambda>k i. 0" 0 1 False 1 200] by (simp add: frame_fits_def reset_def)
  have p: "motionThreshold ?s = 26" "stableCap ?s = 1" "erosionLevel ?s = 0" "imageArea ?s = 1"
    "currentStableTimes ?s = [0]"
    by (simp_all add: reset_def constructed_def Let_def kDownscaleRatio_def)
  have cap: "records_capped ?s" by (rule reset_capped)
  have nw: "\<forall>i<imageArea ?s. unat (currentStableTimes ?s ! i) + length [tm0, tm0, tm0] < 2 ^ 32"
    by (simp add: p)
  from convergence_same_frame [OF ok fit _ _ cap nw] p
  obtain s' where "run_frames [tm0, tm0, tm0] (flat_frame 200) ?s = Returns s'"
    "getPixels (refImage s') = getPixels (currentImage s')"
    "\<forall>i<imageArea ?s. getPixels (motionMask s') ! (i * kBytesPerPixel) = 0"
    by auto
  moreover from this(3) have "getPixels (motionMask s') ! 0 = 0" by (simp add: p)
  ultimately show ?thesis using ok fit cap unfolding p by simp
qed

text \<open>
  \<open>stableCap\<close> calls are not enough: with \<open>stableCap = 1\<close>, after two black frames, one
  call with a bright frame leaves the reference image black, the tracked image bright
  and the indicator on.
\<close>

theorem convergence_same_frame_counterexample:
  "\<exists>s0 s1 s2 s3.
     setErosion 0 (constructed (\<lambda>k i. 0) 0 2 2 1 False 1) = Returns s0 \<and>
     generateMotionMask tm0 (flat_frame 0) s0 = Returns s1 \<and>
     generateMotionMask tm0 (flat_frame 0) s1 = Returns s2 \<and>
     unat (stableCap s2) = 1 \<and>
     run_frames [tm0] (flat_frame 200) s2 = Returns s3 \<and>
     getPixels (refImage s3) = [0, 0, 0] \<and>
     getPixels (currentImage s3) = [200, 200, 200] \<and>
     getPixels (motionMask s3) ! 0 = 255"
proof -
  let ?c = "constructed (\<lambda>k i. 0) 0 2 2 1 False 1"
  let ?s0 = "reset (?c\<lparr>erosionLevel := 0\<rparr>)"
  have r0: "setErosion 0 ?c = Returns ?s0" by (simp add: setErosion_def)
  have ok0: "state_ok ?s0"
    using constructed_state_ok [of "\<lambda>k i. 0" 0 2 2 1 False 1]
    by (simp add: state_ok_def frame_dims_def reset_def)
  have fit0: "frame_fits ?s0 (flat_frame 0)"
    using flat_fits [of "\<lambda>k i. 0" 0 1 False 1 0] by (simp add: frame_fits_def reset_def)
  have f0: "firstFrame ?s0" by (simp add: reset_def)
  have p0: "motionThreshold ?s0 = 26" "stableCap ?s0 = 1" "erosionLevel ?s0 = 0" "imageArea ?s0 = 1"
    "currentStableTimes ?s0 = [0]" "stableRecords ?s0 = [0]"
    by (simp_all add: reset_def constructed_def Let_def kDownscaleRatio_def)
  from generateMotionMask_first [OF ok0 f0 fit0, of tm0]
  obtain s1 where r1: "generateMotionMask tm0 (flat_frame 0) ?s0 = Returns s1"
    and b1: "getPixels (currentImage s1) = [0, 0, 0]" "getPixels (refImage s1) = [0, 0, 0]"
    and q1: "\<not> firstFrame s1" "state_ok s1" "frame_fits s1 (flat_frame 0)"
      "motionThreshold s1 = 26" "stableCap s1 = 1" "erosionLevel s1 = 0" "imageArea s1 = 1"
      "currentStableTimes s1 = [0]" "stableRecords s1 = [0]"
    unfolding flat_down p0 by blast
  from generateMotionMask_next [OF q1(2) q1(1) q1(3), of tm0] q1(6)
  obtain a b c A where A: "length A = imageSize s1"
    and r2: "generateMotionMask tm0 (flat_frame 0) s1 =
       Returns ((updated (flat_frame 0) s1)\<lparr>detectorFPS := a, framesCounted := b, lastMark := c,
                  downscaleAccumulators := A\<rparr>)"
    by auto
  let ?s2 = "(updated (flat_frame 0) s1)\<lparr>detectorFPS := a, framesCounted := b, lastMark := c,
                  downscaleAccumulators := A\<rparr>"
  have nd1: "\<not> differs 26 [0, 0, 0] [0, 0, 0] 0" by (simp add: differs_same)
  have cur2: "getPixels (currentImage ?s2) = [0, 0, 0]"
    by (simp add: updated_buffers q1 b1 flat_down upt_3 tracked_byte_def nd1 Math_sign_def del: upt_Suc)
  have tm2: "currentStableTimes ?s2 = [1]"
    by (simp add: updated_buffers q1 b1 flat_down tracked_time_def nd1)
  have ref2: "getPixels (refImage ?s2) = [0, 0, 0]"
    using cur2 tm2
    by (simp add: updated_buffers(3) q1 b1 upt_3 promoted_ref_def del: upt_Suc)
  have rec2: "stableRecords ?s2 = [1]"
    using tm2 by (simp add: updated_buffers(4) q1 promoted_record_def)
  have ok2: "state_ok ?s2"
    using updated_state_ok(1) [OF q1(2) q1(3)] A by (intro state_ok_scratch) simp_all
  have fit2: "frame_fits ?s2 (flat_frame 200)"
    using updated_state_ok(2) [OF q1(2) q1(3)] by (simp add: frame_fits_flat)
  have q2: "\<not> firstFrame ?s2" "motionThreshold ?s2 = 26" "stableCap ?s2 = 1" "erosionLevel ?s2 \<le> 0"
    "imageArea ?s2 = 1"
    using q1 by simp_all
  from generateMotionMask_next [OF ok2 q2(1) fit2 q2(4), of tm0]
  obtain a' b' c' A' where
    r3: "generateMotionMask tm0 (flat_frame 200) ?s2 =
       Returns ((updated (flat_frame 200) ?s2)\<lparr>detectorFPS := a', framesCounted := b', lastMark := c',
                  downscaleAccumulators := A'\<rparr>)"
    by auto
  let ?s3 = "(updated (flat_frame 200) ?s2)\<lparr>detectorFPS := a', framesCounted := b', lastMark := c',
                  downscaleAccumulators := A'\<rparr>"
  have d3: "differs 26 [200, 200, 200] [0, 0, 0] 0"
    unfolding differs_def by (intro exI [of _ 0]) simp
  have cur3: "getPixels (currentImage ?s3) = [200, 200, 200]"
    using cur2 q2
    by (simp add: updated_buffers(1) flat_down upt_3 tracked_byte_def d3 del: upt_Suc)
  have tm3: "currentStableTimes ?s3 = [0]"
    using cur2 q2 by (simp add: updated_buffers(2) flat_down tracked_time_def d3)
  have ref3: "getPixels (refImage ?s3) = [0, 0, 0]"
    using ref2 rec2 tm3 q2
    by (simp add: updated_buffers(3) upt_3 promoted_ref_def del: upt_Suc)
  have "differs 26 [0, 0, 0] [200, 200, 200] 0"
    unfolding differs_def by (intro exI [of _ 0]) simp
  then have m3: "getPixels (motionMask ?s3) ! 0 = 255"
    using cur3 ref3 q2 by (simp add: updated_buffers(5) raw_mask_def)
  have run: "run_frames [tm0] (flat_frame 200) ?s2 = Returns ?s3" by (simp add: r3)
  have cap2: "unat (stableCap ?s2) = 1" using q2 by simp
  from r0 r1 r2 cap2 run ref3 cur3 m3 show ?thesis by blast
qed


subsection \<open>The stability records\<close>

lemma promote_pixel_capped:
  assumes "list_all (\<lambda>r. r \<le> cap) (fst (snd st))"
  shows "list_all (\<lambda>r. r \<le> cap) (fst (snd (promote_pixel thr cap cip timers i st)))"
proof -
  have upd: "list_all (\<lambda>r. r \<le> cap) (xs[i := min v cap])" if "list_all (\<lambda>r. r \<le> cap) xs" for xs v
    unfolding list_all_length
  proof (intro allI impI)
    fix n assume "n < length (xs[i := min v cap])"
    then have n: "n < length xs" by simp
    with that have "xs ! n \<le> cap" by (simp add: list_all_length)
    then show "xs[i := min v cap] ! n \<le> cap"
      using n by (cases "n = i") simp_all
  qed
  show ?thesis
    using assms by (simp add: promote_pixel_def Let_def upd)
qed

lemma promote_fold_capped:
  assumes "list_all (\<lambda>r. r \<le> cap) (fst (snd st))"
  shows "list_all (\<lambda>r. r \<le> cap) (fst (snd (fold (promote_pixel thr cap cip timers) is st)))"
  using assms by (induction "is" arbitrary: st) (simp_all add: promote_pixel_capped)

lemma downscale_shape:
  assumes "downscale frame down s = Returns r"
  shows "\<exists>A. snd r = s\<lparr>downscaleAccumulators := A\<rparr>"
  using assms by (auto simp: downscale_def Let_def split: option.splits sum.splits if_splits)

lemma filter_pass_shape:
  assumes "filter_pass pixel s = Inr s'"
  shows "\<exists>em. s' = s\<lparr>erodedMask := em, motionMask := em\<rparr>"
  using assms by (auto simp: filter_pass_def Let_def split: sum.splits)

lemma update_model_capped:
  assumes "records_capped s"
  shows "records_capped (update_model s)"
proof -
  have "list_all (\<lambda>r. r \<le> stableCap s) (fst (snd (fold (promote_pixel thr (stableCap s) cip timers) is
      (rip, stableRecords s, bmp))))" for thr cip timers "is" rip bmp
    using assms by (intro promote_fold_capped) (simp add: records_capped_def)
  then show ?thesis
    by (simp add: records_capped_def update_model_def Let_def)
qed

lemma morphological_filter_shape:
  assumes "morphological_filter s = Returns s'"
  shows "\<exists>dm. s' = s\<lparr>erodedMask := dm, motionMask := dm\<rparr>"
proof -
  from assms obtain s3 where e: "filter_pass (erode_pixel (erosionLevel s) (offs s)) s = Inr s3"
    and d: "filter_pass (dilate_pixel (offs s3)) s3 = Inr s'"
    by (auto simp: morphological_filter_def split: sum.splits)
  from filter_pass_shape [OF e] filter_pass_shape [OF d] show ?thesis by auto
qed

lemma promote_pixel_record:
  assumes "i < length (fst (snd st))"
  shows "length (fst (snd (promote_pixel thr cap cip timers j st))) = length (fst (snd st)) \<and>
     (fst (snd (promote_pixel thr cap cip timers j st)) ! i = fst (snd st) ! i \<or>
      fst (snd st) ! i < timers ! i \<and>
      fst (snd (promote_pixel thr cap cip timers j st)) ! i = min (timers ! i) cap)"
  using assms by (cases "i = j") (simp_all add: promote_pixel_def Let_def)

lemma promote_fold_record:
  assumes "i < length (fst (snd st))"
  shows "length (fst (snd (fold (promote_pixel thr cap cip timers) js st))) = length (fst (snd st)) \<and>
     (fst (snd (fold (promote_pixel thr cap cip timers) js st)) ! i = fst (snd st) ! i \<or>
      fst (snd st) ! i < timers ! i \<and>
      fst (snd (fold (promote_pixel thr cap cip timers) js st)) ! i = min (timers ! i) cap)"
  using assms
proof (induction js arbitrary: st)
  case Nil
  then show ?case by simp
next
  case (Cons j js)
  define st' where "st' = promote_pixel thr cap cip timers j st"
  from promote_pixel_record [OF Cons.prems, of thr cap cip timers j]
  have len: "length (fst (snd st')) = length (fst (snd st))"
    and one: "fst (snd st') ! i = fst (snd st) ! i \<or>
      fst (snd st) ! i < timers ! i \<and> fst (snd st') ! i = min (timers ! i) cap"
    by (simp_all add: st'_def)
  from Cons.prems len have i': "i < length (fst (snd st'))" by simp
  from Cons.IH [OF i']
  have len': "length (fst (snd (fold (promote_pixel thr cap cip timers) js st'))) = length (fst (snd st'))"
    and rest: "fst (snd (fold (promote_pixel thr cap cip timers) js st')) ! i = fst (snd st') ! i \<or>
      fst (snd st') ! i < timers ! i \<and>
      fst (snd (fold (promote_pixel thr cap cip timers) js st')) ! i = min (timers ! i) cap"
    by simp_all
  have f: "fold (promote_pixel thr cap cip timers) (j # js) st = fold (promote_pixel thr cap cip timers) js st'"
    by (simp add: st'_def)
  from one rest have "fst (snd (fold (promote_pixel thr cap cip timers) js st')) ! i = fst (snd st) ! i \<or>
      fst (snd st) ! i < timers ! i \<and>
      fst (snd (fold (promote_pixel thr cap cip timers) js st')) ! i = min (timers ! i) cap"
    by auto
  with len len' show ?case unfolding f by simp
qed

lemma update_model_record:
  assumes "i < length (stableRecords s)"
  shows "stableRecords (update_model s) ! i = stableRecords s ! i \<or>
     stableRecords s ! i < currentStableTimes (update_model s) ! i \<and>
     stableRecords (update_model s) ! i = min (currentStableTimes (update_model s) ! i) (stableCap s)"
proof -
  have "i < length (fst (snd (rip, stableRecords s, bmp)))" for rip :: "uint8 list" and bmp :: "uint8 list"
    using assms by simp
  from promote_fold_record [OF this, THEN conjunct2] show ?thesis
    by (simp add: update_model_def Let_def)
qed

lemma generateMotionMask_cases:
  assumes run: "generateMotionMask tm frame s = Returns s'"
  shows "\<exists>s1. stableRecords s1 = stableRecords s \<and> stableCap s1 = stableCap s \<and>
     (s' = first_frame_copy s1 \<or> s' = update_model s1 \<or>
      (\<exists>dm. s' = (update_model s1)\<lparr>erodedMask := dm, motionMask := dm\<rparr>))"
proof -
  obtain a b c where bt: "benchmark_tick tm s = s\<lparr>detectorFPS := a, framesCounted := b, lastMark := c\<rparr>"
    using benchmark_tick_fields by blast
  let ?sb = "s\<lparr>detectorFPS := a, framesCounted := b, lastMark := c\<rparr>"
  from run obtain r where ds: "downscale frame (downscaleBuff ?sb) ?sb = Returns r"
    unfolding generateMotionMask_def bt
    by (cases "downscale frame (downscaleBuff ?sb) ?sb") simp_all
  from downscale_shape [OF ds] obtain A where A: "snd r = ?sb\<lparr>downscaleAccumulators := A\<rparr>" by blast
  define s1 where "s1 = store_downscaled r"
  have c1: "stableRecords s1 = stableRecords s" "stableCap s1 = stableCap s"
    by (simp_all add: s1_def store_downscaled_def A)
  have "generateMotionMask tm frame s = (if firstFrame s1 then Returns (first_frame_copy s1)
      else if erosionLevel (update_model s1) > 0 then morphological_filter (update_model s1)
      else Returns (update_model s1))"
    unfolding generateMotionMask_def bt ds by (simp add: Let_def s1_def)
  with run have r1: "(if firstFrame s1 then Returns (first_frame_copy s1)
      else if erosionLevel (update_model s1) > 0 then morphological_filter (update_model s1)
      else Returns (update_model s1)) = Returns s'" by simp
  have "s' = first_frame_copy s1 \<or> s' = update_model s1 \<or>
      (\<exists>dm. s' = (update_model s1)\<lparr>erodedMask := dm, motionMask := dm\<rparr>)"
  proof (cases "firstFrame s1")
    case True
    with r1 show ?thesis by simp
  next
    case nf: False
    show ?thesis
    proof (cases "erosionLevel (update_model s1) > 0")
      case False
      with r1 nf show ?thesis by simp
    next
      case True
      with r1 nf have "morphological_filter (update_model s1) = Returns s'" by simp
      from morphological_filter_shape [OF this] show ?thesis by blast
    qed
  qed
  with c1 show ?thesis by blast
qed

lemma generateMotionMask_no_throw: "generateMotionMask tm frame s \<noteq> Throws e s'"
proof -
  have d: "downscale f d t \<noteq> Throws e r" for f d t r
    by (simp add: downscale_def Let_def split: option.splits sum.splits)
  have m: "morphological_filter t \<noteq> Throws e s'" for t
    by (simp add: morphological_filter_def split: sum.splits)
  show ?thesis
    unfolding generateMotionMask_def using d m
    by (simp add: Let_def split: outcome.splits)
qed

lemma generateMotionMask_capped:
  assumes cap: "records_capped s" and run: "generateMotionMask tm frame s = Returns s'"
  shows "records_capped s'"
proof -
  from generateMotionMask_cases [OF run]
  obtain s1 where s1: "stableRecords s1 = stableRecords s" "stableCap s1 = stableCap s"
    and alt: "s' = first_frame_copy s1 \<or> s' = update_model s1 \<or>
      (\<exists>dm. s' = (update_model s1)\<lparr>erodedMask := dm, motionMask := dm\<rparr>)"
    by blast
  from cap s1 have c1: "records_capped s1" by (simp add: records_capped_def)
  note c2 = update_model_capped [OF c1]
  from alt show ?thesis
  proof (elim disjE exE)
    assume "s' = first_frame_copy s1"
    with c1 show ?thesis by (simp add: first_frame_copy_def records_capped_def)
  next
    assume "s' = update_model s1"
    with c2 show ?thesis by simp
  next
    fix dm assume "s' = (update_model s1)\<lparr>erodedMask := dm, motionMask := dm\<rparr>"
    with c2 show ?thesis by (simp add: records_capped_def)
  qed
qed

lemma generateMotionMask_record:
  assumes run: "generateMotionMask tm frame s = Returns s'" and i: "i < length (stableRecords s)"
  shows "stableRecords s' ! i = stableRecords s ! i \<or>
     stableRecords s ! i < currentStableTimes s' ! i \<and>
     stableRecords s' ! i = min (currentStableTimes s' ! i) (stableCap s)"
proof -
  from generateMotionMask_cases [OF run]
  obtain s1 where s1: "stableRecords s1 = stableRecords s" "stableCap s1 = stableCap s"
    and alt: "s' = first_frame_copy s1 \<or> s' = update_model s1 \<or>
      (\<exists>dm. s' = (update_model s1)\<lparr>erodedMask := dm, motionMask := dm\<rparr>)"
    by blast
  from i s1 have "i < length (stableRecords s1)" by simp
  note u = update_model_record [OF this, unfolded s1]
  from alt show ?thesis
  proof (elim disjE exE)
    assume "s' = first_frame_copy s1"
    with s1 show ?thesis by (simp add: first_frame_copy_def)
  next
    assume "s' = update_model s1"
    with u show ?thesis by simp
  next
    fix dm assume "s' = (update_model s1)\<lparr>erodedMask := dm, motionMask := dm\<rparr>"
    with u show ?thesis by simp
  qed
qed

lemma setter_capped:
  "state_after (setSensitivity n s) = Some s' \<Longrightarrow> records_capped s \<Longrightarrow> records_capped s'"
  "state_after (setSettleTime rnd t s) = Some s' \<Longrightarrow> records_capped s \<Longrightarrow> records_capped s'"
  "state_after (setErosion e s) = Some s' \<Longrightarrow> records_capped s \<Longrightarrow> records_capped s'"
  using reset_capped
  by (auto simp: setSensitivity_def setSettleTime_def setErosion_def split: if_splits option.splits)

lemma setter_zeroes:
  "setSensitivity n s = Returns s' \<Longrightarrow> stableRecords s' = replicate (imageArea s) 0"
  "setSettleTime rnd t s = Returns s' \<Longrightarrow> stableRecords s' = replicate (imageArea s) 0"
  "setErosion e s = Returns s' \<Longrightarrow> stableRecords s' = replicate (imageArea s) 0"
  by (auto simp: setSensitivity_def setSettleTime_def setErosion_def reset_def split: if_splits option.splits)

lemma setter_returns_capped:
  "setSensitivity n s = Returns s' \<Longrightarrow> records_capped s'"
  "setSettleTime rnd t s = Returns s' \<Longrightarrow> records_capped s'"
  "setErosion e s = Returns s' \<Longrightarrow> records_capped s'"
  using reset_capped
  by (auto simp: setSensitivity_def setSettleTime_def setErosion_def split: if_splits option.splits)

lemma setter_throws_same:
  "setSensitivity n s = Throws x s' \<Longrightarrow> s' = s"
  "setSettleTime rnd t s = Throws x s' \<Longrightarrow> s' = s"
  "setErosion e s = Throws x s' \<Longrightarrow> s' = s"
  by (auto simp: setSensitivity_def setSettleTime_def setErosion_def split: if_splits option.splits)

lemma load_capped:
  assumes "state_after (load rnd obj s) = Some s'" and "records_capped s"
  shows "records_capped s'"
proof (cases "load rnd obj s")
  case (Returns t)
  then obtain s2 e where "setErosion e s2 = Returns t"
    by (auto simp: load_def Let_def split: if_splits option.splits outcome.splits)
  then have "records_capped t" by (rule setter_returns_capped)
  with Returns assms show ?thesis by simp
next
  case (Throws x t)
  then have "t = s \<or> (\<exists>n s1. setSensitivity n s = Returns s1 \<and>
      (t = s1 \<or> (\<exists>d s2. setSettleTime rnd d s1 = Returns s2 \<and> t = s2)))"
    by (auto simp: load_def Let_def split: if_splits option.splits outcome.splits
        dest: setter_throws_same)
  then have "records_capped t"
    using assms(2) by (auto dest: setter_returns_capped)
  with Throws assms show ?thesis by simp
next
  case (Faults f)
  with assms show ?thesis by simp
qed

lemma morphological_filter_records:
  assumes "morphological_filter u = Returns s'"
  shows "stableRecords s' = stableRecords u \<and> stableCap s' = stableCap u"
  using morphological_filter_shape [OF assms] by auto

lemma generateMotionMask_rewrites:
  assumes ok: "state_ok s" and fits: "frame_fits s frame"
  shows "\<exists>r u. downscale frame (downscaleBuff (benchmark_tick tm s)) (benchmark_tick tm s) = Returns r \<and>
     u = update_model (store_downscaled r) \<and>
     generateMotionMask tm frame s =
       (if firstFrame s then Returns (first_frame_copy (store_downscaled r))
        else if 0 < erosionLevel s then morphological_filter u else Returns u) \<and>
     stableRecords (first_frame_copy (store_downscaled r)) = stableRecords s \<and>
     stableCap (first_frame_copy (store_downscaled r)) = stableCap s \<and>
     stableCap u = stableCap s \<and> length (stableRecords u) = imageArea s \<and>
     (\<forall>i<imageArea s. currentStableTimes u ! i = 0 \<or>
        currentStableTimes u ! i = currentStableTimes s ! i + 1) \<and>
     (\<forall>i<imageArea s. stableRecords u ! i =
        (if stableRecords s ! i < currentStableTimes u ! i
         then min (currentStableTimes u ! i) (stableCap s) else stableRecords s ! i)) \<and>
     (records_capped s \<longrightarrow> records_capped u)"
proof -
  from generateMotionMask_steps [OF ok fits, of tm]
  obtain r a b c A where ds: "downscale frame (downscaleBuff (benchmark_tick tm s)) (benchmark_tick tm s) = Returns r"
    and gm: "generateMotionMask tm frame s =
       (if firstFrame s then Returns (first_frame_copy (store_downscaled r))
        else if 0 < erosionLevel s then morphological_filter (update_model (store_downscaled r))
        else Returns (update_model (store_downscaled r)))"
    and ff: "stableRecords (first_frame_copy (store_downscaled r)) = stableRecords s"
      "stableCap (first_frame_copy (store_downscaled r)) = stableCap s"
    and um: "update_model (store_downscaled r) =
       (updated frame s)\<lparr>detectorFPS := a, framesCounted := b, lastMark := c,
                  downscaleAccumulators := A\<rparr>"
    by blast
  define u where "u = update_model (store_downscaled r)"
  have rec: "stableRecords u = stableRecords (updated frame s)"
    and tim: "currentStableTimes u = currentStableTimes (updated frame s)"
    and cap: "stableCap u = stableCap s"
    by (simp_all add: u_def um)
  have len: "length (stableRecords u) = imageArea s"
    by (simp add: rec updated_buffers(4))
  have t: "currentStableTimes u ! i = 0 \<or> currentStableTimes u ! i = currentStableTimes s ! i + 1"
    if "i < imageArea s" for i
    using that by (simp add: tim updated_buffers(2) tracked_time_def)
  have p: "stableRecords u ! i =
        (if stableRecords s ! i < currentStableTimes u ! i
         then min (currentStableTimes u ! i) (stableCap s) else stableRecords s ! i)"
    if "i < imageArea s" for i
    using that unfolding rec tim by (simp add: updated_buffers(4) promoted_record_def)
  have c: "records_capped u" if "records_capped s"
    using updated_records_capped [OF ok that, of frame] by (simp add: records_capped_def rec cap)
  have gm': "generateMotionMask tm frame s =
       (if firstFrame s then Returns (first_frame_copy (store_downscaled r))
        else if 0 < erosionLevel s then morphological_filter u else Returns u)"
    unfolding u_def by (rule gm)
  have t': "\<forall>i<imageArea s. currentStableTimes u ! i = 0 \<or>
        currentStableTimes u ! i = currentStableTimes s ! i + 1"
    using t by blast
  have p': "\<forall>i<imageArea s. stableRecords u ! i =
        (if stableRecords s ! i < currentStableTimes u ! i
         then min (currentStableTimes u ! i) (stableCap s) else stableRecords s ! i)"
    using p by blast
  have c': "records_capped s \<longrightarrow> records_capped u" using c by blast
  show ?thesis
    apply (rule exI [of _ r])
    apply (rule exI [of _ u])
    apply (intro conjI)
             apply (rule ds)
            apply (rule u_def)
           apply (rule gm')
          apply (rule ff(1))
         apply (rule ff(2))
        apply (rule cap)
       apply (rule len)
      apply (rule t')
     apply (rule p')
    apply (rule c')
    done
qed

lemma flat_second_call:
  assumes "motionThreshold s = 26" "stableCap s = 1" "imageArea s = 1"
    "currentStableTimes s = [0]" "stableRecords s = [0]" "getPixels (currentImage s) = [0, 0, 0]"
  shows "currentStableTimes (updated (flat_frame 0) s) = [1]"
  using assms
  by (simp add: updated_buffers(2) flat_down tracked_time_def differs_same)

text \<open>
  Claim C6. Every record is at most \<open>stableCap\<close> after construction and after \<open>reset()\<close>,
  and stays so in the state left by \<open>generateMotionMask\<close>, by each setter and by \<open>load\<close>,
  whether the operation returned or threw. Construction, \<open>reset()\<close> and a setter that
  returns leave every record 0. A call of \<open>generateMotionMask\<close> that returns leaves a
  record as it was or, when the pixel's timer exceeds it, sets it to the minimum of the
  timer and \<open>stableCap\<close>.

  For an object with buffers of the constructed geometry and a frame of that geometry,
  at every erosion level, the call is followed to the end of the second pass: the
  downscale returns; on the first frame the call returns with the records untouched;
  otherwise the object \<open>u\<close> at the end of the second pass has, at every pixel, the record
  \<open>min(timer, stableCap)\<close> when the timer exceeds the old record and the old record when
  it does not, so its records are at most \<open>stableCap\<close> when the old ones were. With
  erosion level 0 the call returns \<open>u\<close>; with a positive level its outcome is that of the
  filter run on \<open>u\<close>, and the filter writes the two masks only.
\<close>

theorem stability_records_capped:
  "(\<forall>s0. new_MotionExtractor mem now w h rate b = Returns s0 \<longrightarrow>
      records_capped s0 \<and> stableRecords s0 = replicate (imageArea s0) 0) \<and>
   records_capped (reset s) \<and> stableRecords (reset s) = replicate (imageArea s) 0 \<and>
   (\<forall>s'. records_capped s \<and>
      (state_after (generateMotionMask tm frame s) = Some s' \<or>
       state_after (setSensitivity n s) = Some s' \<or>
       state_after (setSettleTime rnd t s) = Some s' \<or>
       state_after (setErosion e s) = Some s' \<or>
       state_after (load rnd obj s) = Some s') \<longrightarrow> records_capped s') \<and>
   (\<forall>s'. setSensitivity n s = Returns s' \<or> setSettleTime rnd t s = Returns s' \<or>
      setErosion e s = Returns s' \<longrightarrow> stableRecords s' = replicate (imageArea s) 0) \<and>
   (\<forall>s' i. generateMotionMask tm frame s = Returns s' \<and> i < length (stableRecords s) \<longrightarrow>
      stableRecords s' ! i = stableRecords s ! i \<or>
      stableRecords s ! i < currentStableTimes s' ! i \<and>
      stableRecords s' ! i = min (currentStableTimes s' ! i) (stableCap s)) \<and>
   (state_ok s \<and> frame_fits s frame \<longrightarrow>
      (\<exists>r u. downscale frame (downscaleBuff (benchmark_tick tm s)) (benchmark_tick tm s) = Returns r \<and>
         u = update_model (store_downscaled r) \<and>
         generateMotionMask tm frame s =
           (if firstFrame s then Returns (first_frame_copy (store_downscaled r))
            else if 0 < erosionLevel s then morphological_filter u else Returns u) \<and>
         stableRecords (first_frame_copy (store_downscaled r)) = stableRecords s \<and>
         stableCap (first_frame_copy (store_downscaled r)) = stableCap s \<and>
         stableCap u = stableCap s \<and> length (stableRecords u) = imageArea s \<and>
         (\<forall>i<imageArea s. currentStableTimes u ! i = 0 \<or>
            currentStableTimes u ! i = currentStableTimes s ! i + 1) \<and>
         (\<forall>i<imageArea s. stableRecords u ! i =
            (if stableRecords s ! i < currentStableTimes u ! i
             then min (currentStableTimes u ! i) (stableCap s) else stableRecords s ! i)) \<and>
         (records_capped s \<longrightarrow> records_capped u))) \<and>
   (\<forall>u s'. morphological_filter u = Returns s' \<longrightarrow>
      stableRecords s' = stableRecords u \<and> stableCap s' = stableCap u)"
proof -
  have a: "records_capped s0 \<and> stableRecords s0 = replicate (imageArea s0) 0"
    if "new_MotionExtractor mem now w h rate b = Returns s0" for s0
  proof -
    from that obtain cap where "s0 = constructed mem now w h rate b cap"
      by (auto simp: new_MotionExtractor_def split: option.splits)
    then show ?thesis
      by (simp add: constructed_def Let_def reset_capped) (simp add: reset_def)
  qed
  have b: "stableRecords (reset s) = replicate (imageArea s) 0" by (simp add: reset_def)
  have c: "records_capped s'"
    if "records_capped s" and "state_after (generateMotionMask tm frame s) = Some s' \<or>
       state_after (setSensitivity n s) = Some s' \<or>
       state_after (setSettleTime rnd t s) = Some s' \<or>
       state_after (setErosion e s) = Some s' \<or>
       state_after (load rnd obj s) = Some s'" for s'
    using that(2)
  proof (elim disjE)
    assume g: "state_after (generateMotionMask tm frame s) = Some s'"
    then have "generateMotionMask tm frame s = Returns s'"
      by (cases "generateMotionMask tm frame s") (simp_all add: generateMotionMask_no_throw)
    with that(1) show ?thesis by (rule generateMotionMask_capped)
  qed (use that(1) in \<open>auto intro: setter_capped load_capped\<close>)
  have d: "stableRecords s' = replicate (imageArea s) 0"
    if "setSensitivity n s = Returns s' \<or> setSettleTime rnd t s = Returns s' \<or>
      setErosion e s = Returns s'" for s'
    using that setter_zeroes by blast
  have e: "stableRecords s' ! i = stableRecords s ! i \<or>
      stableRecords s ! i < currentStableTimes s' ! i \<and>
      stableRecords s' ! i = min (currentStableTimes s' ! i) (stableCap s)"
    if "generateMotionMask tm frame s = Returns s'" "i < length (stableRecords s)" for s' i
    using that by (rule generateMotionMask_record)
  show ?thesis
    apply (intro conjI allI impI)
    subgoal for s0 using a by blast
    subgoal for s0 using a by blast
    subgoal by (rule reset_capped)
    subgoal by (rule b)
    subgoal for s' using c by blast
    subgoal for s' using d by blast
    subgoal for s' i using e by blast
    subgoal by (rule generateMotionMask_rewrites) simp_all
    subgoal for u s' using morphological_filter_records by blast
    subgoal for u s' using morphological_filter_records by blast
    done
qed

theorem stability_records_capped_witness:
  "new_MotionExtractor (\<lambda>k i. 0) 0 2 2 1 False = Returns (constructed (\<lambda>k i. 0) 0 2 2 1 False 1) \<and>
   records_capped (constructed (\<lambda>k i. 0) 0 2 2 1 False 1) \<and>
   state_after (setErosion 0 (constructed (\<lambda>k i. 0) 0 2 2 1 False 1))
     = Some (reset ((constructed (\<lambda>k i. 0) 0 2 2 1 False 1)\<lparr>erosionLevel := 0\<rparr>)) \<and>
   records_capped (reset ((constructed (\<lambda>k i. 0) 0 2 2 1 False 1)\<lparr>erosionLevel := 0\<rparr>)) \<and>
   stableRecords (reset ((constructed (\<lambda>k i. 0) 0 2 2 1 False 1)\<lparr>erosionLevel := 0\<rparr>)) = [0] \<and>
   (\<exists>s1 u. generateMotionMask tm0 (flat_frame 0)
         (reset ((constructed (\<lambda>k i. 0) 0 2 2 1 False 1)\<lparr>erosionLevel := 0\<rparr>)) = Returns s1 \<and>
      state_ok s1 \<and> frame_fits s1 (flat_frame 0) \<and> \<not> firstFrame s1 \<and> erosionLevel s1 = 0 \<and>
      records_capped s1 \<and> imageArea s1 = 1 \<and> stableCap s1 = 1 \<and> stableRecords s1 = [0] \<and>
      generateMotionMask tm0 (flat_frame 0) s1 = Returns u \<and>
      currentStableTimes u ! 0 = 1 \<and> stableRecords u ! 0 = 1 \<and> records_capped u) \<and>
   (\<exists>d1 u. generateMotionMask tm0 (flat_frame 0) (constructed (\<lambda>k i. 0) 0 2 2 1 False 1) = Returns d1 \<and>
      state_ok d1 \<and> frame_fits d1 (flat_frame 0) \<and> \<not> firstFrame d1 \<and> erosionLevel d1 = 5 \<and>
      records_capped d1 \<and> imageArea d1 = 1 \<and> stableCap d1 = 1 \<and> stableRecords d1 = [0] \<and>
      generateMotionMask tm0 (flat_frame 0) d1 = morphological_filter u \<and>
      currentStableTimes u ! 0 = 1 \<and> stableRecords u ! 0 = 1 \<and> records_capped u)"
proof -
  let ?c = "constructed (\<lambda>k i. 0) 0 2 2 1 False 1"
  let ?r = "reset (?c\<lparr>erosionLevel := 0\<rparr>)"
  note t = stability_records_capped [of "\<lambda>k i. 0" 0 2 2 1 False ?c tm0 "flat_frame 0" 1 "\<lambda>x. x" 1 0
      "\<lambda>k. JNull"]
  have "double_to_uint 1 = Some 1" using double_to_uint_of_int [of 1] by simp
  then have n: "new_MotionExtractor (\<lambda>k i. 0) 0 2 2 1 False = Returns ?c"
    by (simp add: new_MotionExtractor_def)
  from t [THEN conjunct1, rule_format, OF n] have cap: "records_capped ?c" by simp
  have se: "setErosion 0 ?c = Returns ?r" by (simp add: setErosion_def)
  then have sa: "state_after (setErosion 0 ?c) = Some ?r" by simp
  from t [THEN conjunct2, THEN conjunct2, THEN conjunct2, THEN conjunct1, rule_format, of ?r] cap sa
  have capr: "records_capped ?r" by blast
  have pc: "motionThreshold ?c = 26" "stableCap ?c = 1" "erosionLevel ?c = 5" "imageArea ?c = 1"
    "currentStableTimes ?c = [0]" "stableRecords ?c = [0]"
    by (simp_all add: reset_def constructed_def Let_def kDownscaleRatio_def)
  have pr: "motionThreshold ?r = 26" "stableCap ?r = 1" "erosionLevel ?r = 0" "imageArea ?r = 1"
    "currentStableTimes ?r = [0]" "stableRecords ?r = [0]"
    by (simp_all add: reset_def constructed_def Let_def kDownscaleRatio_def)
  from t [THEN conjunct2, THEN conjunct2, THEN conjunct2, THEN conjunct2, THEN conjunct1, rule_format, of ?r] se
  have zr: "stableRecords ?r = [0]" by (simp add: pc)
  have okc: "state_ok ?c" by (rule constructed_state_ok)
  have fitc: "frame_fits ?c (flat_frame 0)" by (rule flat_fits)
  have fc: "firstFrame ?c" by (rule constructed_first)
  have okr: "state_ok ?r"
    using okc by (simp add: state_ok_def frame_dims_def reset_def)
  have fitr: "frame_fits ?r (flat_frame 0)"
    using fitc by (simp add: frame_fits_def reset_def)
  have fr: "firstFrame ?r" by (simp add: reset_def)
  have second: "\<exists>u. generateMotionMask tm0 (flat_frame 0) s1 =
        (if 0 < erosionLevel s1 then morphological_filter u else Returns u) \<and>
      currentStableTimes u ! 0 = 1 \<and> stableRecords u ! 0 = 1 \<and> records_capped u"
    if ok1: "state_ok s1" and fit1: "frame_fits s1 (flat_frame 0)" and nf1: "\<not> firstFrame s1"
      and cap1: "records_capped s1"
      and q: "motionThreshold s1 = 26" "stableCap s1 = 1" "imageArea s1 = 1"
        "currentStableTimes s1 = [0]" "stableRecords s1 = [0]" "getPixels (currentImage s1) = [0, 0, 0]"
    for s1
  proof -
    note t2 = stability_records_capped [of "\<lambda>k i. 0" 0 2 2 1 False s1 tm0 "flat_frame 0" 1 "\<lambda>x. x" 1 0
        "\<lambda>k. JNull"]
    from t2 [THEN conjunct2, THEN conjunct2, THEN conjunct2, THEN conjunct2, THEN conjunct2,
        THEN conjunct2, THEN conjunct1] ok1 fit1
    obtain r u where ds: "downscale (flat_frame 0) (downscaleBuff (benchmark_tick tm0 s1)) (benchmark_tick tm0 s1) = Returns r"
      and u: "u = update_model (store_downscaled r)"
      and gm: "generateMotionMask tm0 (flat_frame 0) s1 =
           (if firstFrame s1 then Returns (first_frame_copy (store_downscaled r))
            else if 0 < erosionLevel s1 then morphological_filter u else Returns u)"
      and rec: "\<forall>i<imageArea s1. stableRecords u ! i =
            (if stableRecords s1 ! i < currentStableTimes u ! i
             then min (currentStableTimes u ! i) (stableCap s1) else stableRecords s1 ! i)"
      and capu: "records_capped s1 \<longrightarrow> records_capped u"
      by blast
    from generateMotionMask_steps [OF ok1 fit1, of tm0]
    obtain r' a b c A where ds': "downscale (flat_frame 0) (downscaleBuff (benchmark_tick tm0 s1)) (benchmark_tick tm0 s1) = Returns r'"
      and um: "update_model (store_downscaled r') =
         (updated (flat_frame 0) s1)\<lparr>detectorFPS := a, framesCounted := b, lastMark := c,
                  downscaleAccumulators := A\<rparr>"
      by blast
    from ds ds' have "r' = r" by simp
    with um u have "currentStableTimes u = currentStableTimes (updated (flat_frame 0) s1)" by simp
    then have tu: "currentStableTimes u = [1]" using flat_second_call [OF q] by simp
    from rec q(3) have "stableRecords u ! 0 =
            (if stableRecords s1 ! 0 < currentStableTimes u ! 0
             then min (currentStableTimes u ! 0) (stableCap s1) else stableRecords s1 ! 0)"
      by simp
    then have ru: "stableRecords u ! 0 = 1" by (simp add: tu q)
    from gm nf1 have "generateMotionMask tm0 (flat_frame 0) s1 =
        (if 0 < erosionLevel s1 then morphological_filter u else Returns u)" by simp
    with tu ru capu cap1 show ?thesis by auto
  qed
  have first: "\<exists>s1. generateMotionMask tm0 (flat_frame 0) s0 = Returns s1 \<and>
      state_ok s1 \<and> frame_fits s1 (flat_frame 0) \<and> \<not> firstFrame s1 \<and>
      erosionLevel s1 = erosionLevel s0 \<and> records_capped s1 \<and> imageArea s1 = 1 \<and> stableCap s1 = 1 \<and>
      stableRecords s1 = [0] \<and> motionThreshold s1 = 26 \<and> currentStableTimes s1 = [0] \<and>
      getPixels (currentImage s1) = [0, 0, 0]"
    if "state_ok s0" "firstFrame s0" "frame_fits s0 (flat_frame 0)" "records_capped s0"
      "motionThreshold s0 = 26" "stableCap s0 = 1" "imageArea s0 = 1"
      "currentStableTimes s0 = [0]" "stableRecords s0 = [0]"
    for s0
  proof -
    from generateMotionMask_first [OF that(1,2,3), of tm0]
    obtain s1 where g: "generateMotionMask tm0 (flat_frame 0) s0 = Returns s1"
      and f: "getPixels (currentImage s1) = downscaled (flat_frame 0)"
        "\<not> firstFrame s1" "state_ok s1" "frame_fits s1 (flat_frame 0)"
        "motionThreshold s1 = motionThreshold s0" "stableCap s1 = stableCap s0"
        "erosionLevel s1 = erosionLevel s0" "imageArea s1 = imageArea s0"
        "currentStableTimes s1 = currentStableTimes s0" "stableRecords s1 = stableRecords s0"
      by blast
    have "records_capped s1" using that(4) f by (simp add: records_capped_def)
    with g f that show ?thesis by (simp add: flat_down)
  qed
  from first [OF okr fr fitr capr pr(1,2,4,5,6)]
  obtain s1 where s1: "generateMotionMask tm0 (flat_frame 0) ?r = Returns s1"
    "state_ok s1" "frame_fits s1 (flat_frame 0)" "\<not> firstFrame s1"
    "erosionLevel s1 = erosionLevel ?r" "records_capped s1" "imageArea s1 = 1" "stableCap s1 = 1"
    "stableRecords s1 = [0]" "motionThreshold s1 = 26" "currentStableTimes s1 = [0]"
    "getPixels (currentImage s1) = [0, 0, 0]"
    by blast
  from second [OF s1(2,3,4,6,10,8,7,11,9,12)] s1(5) pr(3)
  obtain u where u: "generateMotionMask tm0 (flat_frame 0) s1 = Returns u"
    "currentStableTimes u ! 0 = 1" "stableRecords u ! 0 = 1" "records_capped u"
    by auto
  from first [OF okc fc fitc cap pc(1,2,4,5,6)]
  obtain d1 where d1: "generateMotionMask tm0 (flat_frame 0) ?c = Returns d1"
    "state_ok d1" "frame_fits d1 (flat_frame 0)" "\<not> firstFrame d1"
    "erosionLevel d1 = erosionLevel ?c" "records_capped d1" "imageArea d1 = 1" "stableCap d1 = 1"
    "stableRecords d1 = [0]" "motionThreshold d1 = 26" "currentStableTimes d1 = [0]"
    "getPixels (currentImage d1) = [0, 0, 0]"
    by blast
  from second [OF d1(2,3,4,6,10,8,7,11,9,12)] d1(5) pc(3)
  obtain v where v: "generateMotionMask tm0 (flat_frame 0) d1 = morphological_filter v"
    "currentStableTimes v ! 0 = 1" "stableRecords v ! 0 = 1" "records_capped v"
    by auto
  have A: "\<exists>s1 u. generateMotionMask tm0 (flat_frame 0) ?r = Returns s1 \<and>
      state_ok s1 \<and> frame_fits s1 (flat_frame 0) \<and> \<not> firstFrame s1 \<and> erosionLevel s1 = 0 \<and>
      records_capped s1 \<and> imageArea s1 = 1 \<and> stableCap s1 = 1 \<and> stableRecords s1 = [0] \<and>
      generateMotionMask tm0 (flat_frame 0) s1 = Returns u \<and>
      currentStableTimes u ! 0 = 1 \<and> stableRecords u ! 0 = 1 \<and> records_capped u"
    apply (rule exI [of _ s1], rule exI [of _ u])
    using s1 u pr(3) by simp
  have B: "\<exists>d1 u. generateMotionMask tm0 (flat_frame 0) ?c = Returns d1 \<and>
      state_ok d1 \<and> frame_fits d1 (flat_frame 0) \<and> \<not> firstFrame d1 \<and> erosionLevel d1 = 5 \<and>
      records_capped d1 \<and> imageArea d1 = 1 \<and> stableCap d1 = 1 \<and> stableRecords d1 = [0] \<and>
      generateMotionMask tm0 (flat_frame 0) d1 = morphological_filter u \<and>
      currentStableTimes u ! 0 = 1 \<and> stableRecords u ! 0 = 1 \<and> records_capped u"
    apply (rule exI [of _ d1], rule exI [of _ v])
    using d1 v pc(3) by simp
  show ?thesis
    apply (intro conjI)
          apply (rule n)
         apply (rule cap)
        apply (rule sa)
       apply (rule capr)
      apply (rule zr)
     apply (rule A)
    apply (rule B)
    done
qed


subsection \<open>The erosion pass\<close>

lemma offs_constructed:
  "offs (constructed mem now fw fh rate b cap) =
     (let po = 3; upOne = - int (3 * (fw div 2))
      in [PixelOffset (- 1) 0 (- po), PixelOffset 1 0 po,
          PixelOffset (- 1) (- 1) (upOne - po), PixelOffset 0 (- 1) upOne, PixelOffset 1 (- 1) (upOne + po),
          PixelOffset (- 1) 1 (upOne - po), PixelOffset 0 1 upOne, PixelOffset 1 1 (upOne + po)])"
  by (simp add: constructed_def reset_def Let_def new_VideoFrame_def kBytesPerPixel_def kDownscaleRatio_def)

lemma corner_offs:
  "offs corner_state =
     [PixelOffset (- 1) 0 (- 3), PixelOffset 1 0 3,
      PixelOffset (- 1) (- 1) (- 12), PixelOffset 0 (- 1) (- 9), PixelOffset 1 (- 1) (- 6),
      PixelOffset (- 1) 1 (- 12), PixelOffset 0 1 (- 9), PixelOffset 1 1 (- 6)]"
  by (simp add: corner_state_def offs_constructed)

lemma corner_count: "count_adjacents corner_mask 12 1 1 (offs corner_state) 0 = Inr 1"
  by (simp add: corner_offs corner_mask_def rd_def)

lemma corner_spec: "spec_adjacents 3 corner_mask 1 1 = 2"
  by (simp add: spec_adjacents_def spec_neighbours_def indicator_on_def corner_mask_def kBytesPerPixel_def)

lemma corner_eroded:
  "\<exists>s'. filter_pass (erode_pixel (erosionLevel corner_state) (offs corner_state)) corner_state = Inr s' \<and>
     getPixels (motionMask s') =
       [0, 0, 0,  0, 0, 0,  0, 0, 0,
        0, 0, 0,  0, 0, 0,  0, 0, 0,
        0, 0, 0,  255, 0, 0,  0, 0, 0]"
proof -
  have n: "[0..<stride_count (getTotalSize (motionMask corner_state)) kBytesPerPixel] = [0, 1, 2, 3, 4, 5, 6, 7, 8]"
    by (simp add: corner_state_def getTotalSize_def stride_count_def kBytesPerPixel_def upt_rec)
  have e: "getPixels (erodedMask corner_state) = replicate 27 0"
    by (simp add: corner_state_def constructed_def reset_def Let_def new_VideoFrame_def kBytesPerPixel_def
        kDownscaleRatio_def map_replicate_const)
  have m: "getPixels (motionMask corner_state) = corner_mask" "getWidth (motionMask corner_state) = 3"
    "erosionLevel corner_state = 2"
    by (simp_all add: corner_state_def)
  show ?thesis
    unfolding filter_pass_def n e m corner_offs
    by (simp add: erode_pixel_def corner_mask_def rd_def next_xy_def kBytesPerPixel_def Let_def
        numeral_eq_Suc)
qed

text \<open>
  Claim C1. For every geometry the three entries of the offset table with \<open>y = 1\<close> carry
  the byte offsets of the three entries with \<open>y = - 1\<close>: the erosion pass reads the row
  above twice and never the row below. On \<open>corner_mask\<close> with erosion level 2 the pixel
  \<open>(1,1)\<close> has two active neighbours with positive coordinates, \<open>(2,1)\<close> and \<open>(1,2)\<close>;
  the loop over the table counts one, and the erosion pass turns the pixel off.
\<close>

theorem erosion_counts_row_above_twice:
  "map off_p (drop 5 (offs (constructed mem now fw fh rate b cap)))
     = map off_p (take 3 (drop 2 (offs (constructed mem now fw fh rate b cap)))) \<and>
   erosionLevel corner_state = 2 \<and>
   spec_adjacents 3 corner_mask 1 1 = 2 \<and>
   count_adjacents corner_mask 12 1 1 (offs corner_state) 0 = Inr 1 \<and>
   (\<exists>s'. filter_pass (erode_pixel (erosionLevel corner_state) (offs corner_state)) corner_state = Inr s' \<and>
      getPixels (motionMask corner_state) ! 12 = 255 \<and> getPixels (motionMask s') ! 12 = 0)"
proof -
  have "map off_p (drop 5 (offs (constructed mem now fw fh rate b cap)))
     = map off_p (take 3 (drop 2 (offs (constructed mem now fw fh rate b cap))))"
    by (simp add: offs_constructed Let_def)
  moreover have "erosionLevel corner_state = 2" by (simp add: corner_state_def)
  moreover have "getPixels (motionMask corner_state) ! 12 = 255"
    by (simp add: corner_state_def corner_mask_def)
  moreover from corner_eroded
  obtain s' where "filter_pass (erode_pixel (erosionLevel corner_state) (offs corner_state)) corner_state = Inr s'"
    and "getPixels (motionMask s') ! 12 = 0"
    by auto
  ultimately show ?thesis using corner_spec corner_count by blast
qed

end
